theory Spec2Isabelle
  imports Main
begin

section \<open>JavaScript values\<close>

text \<open>
  Records, validated outputs and aggregates are JavaScript values. Numbers are modelled as
  integers and \<open>NaN\<close> (no fractions): the code only tests them for truthiness.
\<close>

datatype val =
    VUndefined
  | VNull
  | VBool bool
  | VNum int
  | VNaN
  | VStr string
  | VArr "val list"
  | VObj "(string \<times> val) list"

text \<open>\<open>Boolean(v)\<close>, the predicate of \<open>.filter(Boolean)\<close>.\<close>

fun truthy :: "val \<Rightarrow> bool" where
  "truthy VUndefined = False"
| "truthy VNull = False"
| "truthy (VBool b) = b"
| "truthy (VNum n) = (n \<noteq> 0)"
| "truthy VNaN = False"
| "truthy (VStr s) = (s \<noteq> [])"
| "truthy (VArr xs) = True"
| "truthy (VObj kvs) = True"

text \<open>\<open>Array.isArray(v)\<close>.\<close>

fun isArray :: "val \<Rightarrow> bool" where
  "isArray (VArr xs) = True"
| "isArray v = False"

text \<open>
  What \<open>xs.flatMap(f)\<close> appends for one callback result: the elements of an array
  (one level only), any other value as it is.
\<close>

fun spread :: "val \<Rightarrow> val list" where
  "spread (VArr xs) = xs"
| "spread v = [v]"

text \<open>A thrown \<open>Error\<close>, with its message.\<close>

datatype js_error = Error string

fun err_message :: "js_error \<Rightarrow> string" where
  "err_message (Error m) = m"

subsection \<open>Strings of template literals\<close>

definition digit :: "nat \<Rightarrow> char" where
  "digit d = ''0123456789'' ! d"

function string_of_nat :: "nat \<Rightarrow> string" where
  "string_of_nat n =
     (if n < 10 then [digit n] else string_of_nat (n div 10) @ [digit (n mod 10)])"
  by pat_completeness auto
termination
  by (relation "measure (\<lambda>n. n)") auto

declare string_of_nat.simps [simp del]

text \<open>\<open>xs.join(sep)\<close> on an array of strings.\<close>

fun join_with :: "string \<Rightarrow> string list \<Rightarrow> string" where
  "join_with sep [] = []"
| "join_with sep [x] = x"
| "join_with sep (x # y # ys) = x @ sep @ join_with sep (y # ys)"

section \<open>The data model\<close>

text \<open>A message of a file: \<open>meta.message(reason, { source })\<close>.\<close>

record vmessage =
  reason :: string
  source :: string

text \<open>
  \<open>VeliteFile\<close>, the File Representation: its path, the raw \<open>records\<close>, the messages
  accumulated by \<open>meta.message\<close> and the validated \<open>result\<close>.
\<close>

record vfile =
  path :: string
  records :: val
  messages :: "vmessage list"
  result :: val

text \<open>A diagnostic issue of the schema validation: a message and a path of keys and indices.\<close>

datatype seg = Idx nat | Key string

record issue =
  issue_message :: string
  issue_path :: "seg list"

fun seg_str :: "seg \<Rightarrow> string" where
  "seg_str (Idx n) = string_of_nat n"
| "seg_str (Key k) = k"

text \<open>
  A schema is a parameter of the core: given a record and the file it comes from, it yields
  the validated output or the issues found, their paths relative to the record. It is taken
  as a function of its arguments: it is handed the file as created, since all validations of
  one file are started before any of them completes.
\<close>

type_synonym schema = "val \<Rightarrow> vfile \<Rightarrow> issue list + val"

datatype parse_result = Success val | Failure "issue list"

text \<open>
  Modelled from the spec: \<open>schema.safeParseAsync(item, { path, meta })\<close> of the repository's
  \<open>zod\<close> module, which is not among the sources. The validation capability is
  \<open>validate(record, contextPath, meta) -> success(value) | failure(issues[])\<close>; it never
  raises for a record that fails, and an issue's locator is the record's positional path
  joined with the issue's field path.
\<close>

definition safeParseAsync :: "schema \<Rightarrow> val \<Rightarrow> seg list \<Rightarrow> vfile \<Rightarrow> parse_result" where
  "safeParseAsync sch item ctx_path meta =
     (case sch item meta of
        Inr data \<Rightarrow> Success data
      | Inl issues \<Rightarrow>
          Failure (map (\<lambda>i. i\<lparr>issue_path := ctx_path @ issue_path i\<rparr>) issues))"

record collection =
  pattern :: "string list"
  schema :: schema
  single :: bool

type_synonym aggregate = "(string \<times> val) list"

text \<open>
  The resolved \<open>Config\<close>. A pattern is \<open>string | string[]\<close> in the source; a single string
  is the one-element list. \<open>collections\<close> lists the entries of the object in the order of
  \<open>Object.entries\<close>. \<open>cache\<close> is the \<open>Map\<close> of the config object, in insertion order.
\<close>

record config =
  root :: string
  configPath :: string
  configImports :: "string list"
  output_data :: string
  output_assets :: string
  output_clean :: bool
  collections :: "(string \<times> collection) list"
  strict :: bool
  prepare :: "(aggregate \<Rightarrow> js_error + bool option) option"
  complete :: "(aggregate \<Rightarrow> js_error option) option"
  cache :: "(string \<times> val) list"

text \<open>Everything observable a pass does: log lines and calls of the collaborators.\<close>

datatype event =
    Log string
  | Info string
  | Warn string
  | WarnErr js_error
  | Glob "string list" string
  | Create string
  | Validate string nat
  | Prepare aggregate
  | OutputData string aggregate
  | OutputAssets string "(string \<times> string) list"
  | Complete aggregate
  | SetLogLevel string
  | Rm string
  | Mkdir string
  | OutputEntry string string "string list"
  | Watch "string list"
  | WatcherClose

text \<open>
  The process-wide state: the module's \<open>resolved\<close> map, the path-keyed map behind
  \<open>VeliteFile.get\<close>, the \<open>assets\<close> map, the active watcher (with the config its handler
  closes over) and the trace of events so far.
\<close>

record world =
  resolved :: "string \<rightharpoonup> vfile list"
  loaded :: "string \<rightharpoonup> vfile"
  assets :: "(string \<times> string) list"
  watcher :: "config option"
  trace :: "event list"

text \<open>
  The collaborators outside the core, as parameters: \<open>normalize\<close> and \<open>join\<close> of
  \<open>node:path\<close>, the loader behind \<open>VeliteFile.create\<close>, \<open>fast-glob\<close>,
  \<open>micromatch.contains\<close>, the output module and \<open>resolveConfig\<close>. \<open>Inl\<close> (or
  \<open>Some\<close> for the writers) is a thrown error.
\<close>

record env =
  normalize :: "string \<Rightarrow> string"
  join :: "string \<Rightarrow> string \<Rightarrow> string"
  read_records :: "string \<Rightarrow> js_error + val"
  glob :: "string list \<Rightarrow> string \<Rightarrow> js_error + string list"
  contains :: "string \<Rightarrow> string list \<Rightarrow> bool"
  outputData :: "string \<Rightarrow> aggregate \<Rightarrow> js_error option"
  outputAssets :: "string \<Rightarrow> (string \<times> string) list \<Rightarrow> js_error option"
  outputEntry :: "string \<Rightarrow> string \<Rightarrow> string list \<Rightarrow> js_error option"
  resolveConfig :: "string option \<Rightarrow> bool option \<Rightarrow> bool option \<Rightarrow> js_error + config"

definition emit :: "event \<Rightarrow> world \<Rightarrow> world" where
  "emit e s = s\<lparr>trace := trace s @ [e]\<rparr>"

section \<open>Promise.all\<close>

text \<open>
  \<open>Promise.all(xs.map(f))\<close>: every branch runs (a rejected sibling cancels nothing), and
  the whole rejects with a rejection if there is one. The code interleaves the branches at
  their awaits and rejects with the rejection that comes first in time. Time is not part of
  this model: the branches are run one after the other in the order of the list, and the
  rejection reported is the first in that order. So the order of the events of different
  branches, and which error a pass with several failing branches carries, are fixed here
  where the code leaves them to timing; no statement below depends on either.
\<close>

fun run_all :: "('a \<Rightarrow> world \<Rightarrow> (js_error + 'b) \<times> world) \<Rightarrow> 'a list \<Rightarrow> world
    \<Rightarrow> (js_error + 'b) list \<times> world" where
  "run_all f [] s = ([], s)"
| "run_all f (x # xs) s =
     (case f x s of (r, s1) \<Rightarrow>
        (case run_all f xs s1 of (rs, s2) \<Rightarrow> (r # rs, s2)))"

fun promise_all :: "(js_error + 'b) list \<Rightarrow> js_error + 'b list" where
  "promise_all [] = Inr []"
| "promise_all (Inl e # rs) = Inl e"
| "promise_all (Inr v # rs) =
     (case promise_all rs of Inl e \<Rightarrow> Inl e | Inr vs \<Rightarrow> Inr (v # vs))"

section \<open>The Record Parser: \<open>load\<close>\<close>

text \<open>
  Modelled from the spec: \<open>VeliteFile.get\<close> and \<open>VeliteFile.create\<close> of the repository's
  \<open>file\<close> module, which is not among the sources. A File Representation is created on the
  first load of a path, holds the records read from the file, and is the entry of a
  process-wide cache keyed by its path. A file that cannot be read is a thrown error.
\<close>

definition VeliteFile_get :: "string \<Rightarrow> world \<Rightarrow> vfile option" where
  "VeliteFile_get p s = loaded s p"

definition new_file :: "string \<Rightarrow> val \<Rightarrow> vfile" where
  "new_file p recs = \<lparr>path = p, records = recs, messages = [], result = VUndefined\<rparr>"

definition VeliteFile_create :: "env \<Rightarrow> string \<Rightarrow> world \<Rightarrow> (js_error + vfile) \<times> world" where
  "VeliteFile_create E p s =
     (case read_records E p of
        Inl e \<Rightarrow> (Inl e, emit (Create p) s)
      | Inr recs \<Rightarrow>
          (Inr (new_file p recs),
           (emit (Create p) s)\<lparr>loaded := (loaded s)(p \<mapsto> new_file p recs)\<rparr>))"

text \<open>\<open>meta.message(issue.message, { source: issue.path.join('.') })\<close>.\<close>

definition issue_message_of :: "issue \<Rightarrow> vmessage" where
  "issue_message_of i =
     \<lparr>reason = issue_message i, source = join_with ''.'' (map seg_str (issue_path i))\<rparr>"

text \<open>
  The callback of \<open>list.map\<close> in \<open>load\<close> for the record \<open>item\<close> at \<open>index\<close>: the value
  it returns (\<open>undefined\<close> after a failure) and the file with the messages it appended.
\<close>

definition parse_item :: "schema \<Rightarrow> bool \<Rightarrow> vfile \<Rightarrow> val \<Rightarrow> nat \<Rightarrow> vfile \<Rightarrow> val \<times> vfile" where
  "parse_item sch isArr meta0 item index meta =
     (case safeParseAsync sch item (if isArr then [Idx index] else []) meta0 of
        Success data \<Rightarrow> (data, meta)
      | Failure issues \<Rightarrow>
          (VUndefined, meta\<lparr>messages := messages meta @ map issue_message_of issues\<rparr>))"

fun parse_list :: "schema \<Rightarrow> bool \<Rightarrow> vfile \<Rightarrow> val list \<Rightarrow> nat \<Rightarrow> vfile \<Rightarrow> val list \<times> vfile" where
  "parse_list sch isArr meta0 [] index meta = ([], meta)"
| "parse_list sch isArr meta0 (item # items) index meta =
     (case parse_item sch isArr meta0 item index meta of (v, meta1) \<Rightarrow>
        (case parse_list sch isArr meta0 items (Suc index) meta1 of (vs, meta2) \<Rightarrow>
           (v # vs, meta2)))"

text \<open>The \<open>Validate\<close> events of one file: one call of the schema for each record.\<close>

definition validate_events :: "string \<Rightarrow> nat \<Rightarrow> event list" where
  "validate_events p n = map (Validate p) [0..<n]"

text \<open>\<open>xs[0]\<close>: the first element, \<open>undefined\<close> on an empty array.\<close>

definition first_of :: "val list \<Rightarrow> val" where
  "first_of xs = (case xs of [] \<Rightarrow> VUndefined | v # vs \<Rightarrow> v)"

text \<open>\<open>const list = isArr ? meta.records : [meta.records]\<close>.\<close>

definition record_list :: "val \<Rightarrow> val list" where
  "record_list recs = (if isArray recs then spread recs else [recs])"

text \<open>
  \<open>load\<close> from \<open>VeliteFile.create\<close> on: the file is read and every record validated.
  \<open>meta\<close> is one object, mutated in place and held by the path cache, so the cache sees its
  messages and its result.
\<close>

definition load_fresh :: "env \<Rightarrow> string \<Rightarrow> schema \<Rightarrow> world \<Rightarrow> (js_error + vfile) \<times> world" where
  "load_fresh E p sch s =
     (case VeliteFile_create E p s of
        (Inl e, s1) \<Rightarrow> (Inl e, s1)
      | (Inr meta, s1) \<Rightarrow>
          (let isArr = isArray (records meta);
               list = record_list (records meta);
               (parsed, meta1) = parse_list sch isArr meta list 0 meta;
               meta2 = meta1\<lparr>result := (if isArr then VArr parsed else first_of parsed)\<rparr>
           in (Inr meta2,
               s1\<lparr>loaded := (loaded s1)(p \<mapsto> meta2),
                  trace := trace s1 @ validate_events p (length list)\<rparr>)))"

text \<open>
  The short cut of \<open>load\<close>: with a \<open>changed\<close> hint that is not this path, the file that
  \<open>VeliteFile.get\<close> finds, if any.
\<close>

definition load_cached :: "string option \<Rightarrow> string \<Rightarrow> world \<Rightarrow> vfile option" where
  "load_cached changed p s =
     (case changed of
        None \<Rightarrow> None
      | Some ch \<Rightarrow> if p = ch then None else VeliteFile_get p s)"

definition load :: "env \<Rightarrow> config \<Rightarrow> string \<Rightarrow> schema \<Rightarrow> string option \<Rightarrow> world
    \<Rightarrow> (js_error + vfile) \<times> world" where
  "load E cfg p0 sch changed s =
     (let p = normalize E p0 in
      case load_cached changed p s of
        Some exists \<Rightarrow> (Inr exists, s)
      | None \<Rightarrow> load_fresh E p sch s)"

section \<open>The Collection Resolver and the Build Orchestrator: \<open>resolve\<close>\<close>

text \<open>
  The test of the callback of \<open>resolve\<close>: with a \<open>changed\<close> hint that the patterns do not
  contain, the entry of \<open>resolved\<close> under the collection's name, if any.
\<close>

definition skip_collection :: "env \<Rightarrow> string option \<Rightarrow> string list \<Rightarrow> string \<Rightarrow> world
    \<Rightarrow> vfile list option" where
  "skip_collection E changed pat name s =
     (case changed of
        None \<Rightarrow> None
      | Some ch \<Rightarrow> if contains E ch pat then None else resolved s name)"

text \<open>The callback of \<open>Object.entries(collections).map\<close>.\<close>

definition resolve_collection :: "env \<Rightarrow> config \<Rightarrow> string option \<Rightarrow> string \<times> collection
    \<Rightarrow> world \<Rightarrow> (js_error + string \<times> vfile list) \<times> world" where
  "resolve_collection E cfg changed nc s =
     (let name = fst nc; pat = pattern (snd nc) in
      case skip_collection E changed pat name s of
        Some files \<Rightarrow>
          (Inr (name, files),
           emit (Log (''skipped resolve '' @ [CHR 0x27] @ name @ [CHR 0x27]
                      @ '', using previous resolved'')) s)
      | None \<Rightarrow>
          (case glob E pat (root cfg) of
             Inl e \<Rightarrow> (Inl e, emit (Glob pat (root cfg)) s)
           | Inr paths \<Rightarrow>
               (case run_all (\<lambda>p. load E cfg p (schema (snd nc)) changed) paths
                       (emit (Glob pat (root cfg)) s) of
                  (rs, s1) \<Rightarrow>
                    (case promise_all rs of
                       Inl e \<Rightarrow> (Inl e, s1)
                     | Inr files \<Rightarrow>
                         (Inr (name, files),
                          (emit (Log (''resolve '' @ string_of_nat (length paths)
                                      @ '' files matching '' @ [CHR 0x27]
                                      @ join_with '','' pat @ [CHR 0x27])) s1)
                          \<lparr>resolved := (resolved s1)(name \<mapsto> files)\<rparr>)))))"

text \<open>
  Modelled from the spec: \<open>reporter(allFiles, { quiet: true })\<close> of \<open>vfile-reporter\<close>. It
  collects every diagnostic message across every file into a single report, and a file
  without messages adds nothing to it.
\<close>

definition report_line :: "vfile \<Rightarrow> vmessage \<Rightarrow> string" where
  "report_line f m = path f @ '': '' @ source m @ '' '' @ reason m @ [CHR 0x0A]"

definition reporter :: "vfile list \<Rightarrow> string" where
  "reporter files = concat (map (\<lambda>f. concat (map (report_line f) (messages f))) files)"

text \<open>\<open>files.flatMap(file => file.result).filter(Boolean)\<close>.\<close>

definition data_of :: "vfile list \<Rightarrow> val list" where
  "data_of files = filter truthy (concat (map (\<lambda>file. spread (result file)) files))"

text \<open>
  The callback of \<open>entries.map\<close> that builds the aggregate of one collection.
  \<open>collections[name]\<close> of a name that is no key would be \<open>undefined\<close>, and reading
  \<open>single\<close> of it a \<open>TypeError\<close>.
\<close>

definition collect :: "config \<Rightarrow> string \<times> vfile list \<Rightarrow> world \<Rightarrow> (js_error + string \<times> val) \<times> world" where
  "collect cfg nf s =
     (let name = fst nf; data = data_of (snd nf) in
      case map_of (collections cfg) name of
        None \<Rightarrow> (Inl (Error ''Cannot read properties of undefined''), s)
      | Some c \<Rightarrow>
          if single c then
            (if length data = 0
             then (Inl (Error (''no data resolved for '' @ [CHR 0x27] @ name @ [CHR 0x27])), s)
             else (Inr (name, first_of data),
                   (if length data > 1
                    then emit (Warn (''resolved '' @ string_of_nat (length data) @ '' '' @ name
                                     @ '', but expected single, using first one'')) s
                    else emit (Log (''resolved 1 '' @ name)) s)))
          else (Inr (name, VArr data),
                emit (Log (''resolved '' @ string_of_nat (length data) @ '' '' @ name)) s))"

text \<open>A synchronous \<open>xs.map(f)\<close> whose callback may throw: the first throw ends it.\<close>

fun map_throw :: "('a \<Rightarrow> world \<Rightarrow> (js_error + 'b) \<times> world) \<Rightarrow> 'a list \<Rightarrow> world
    \<Rightarrow> (js_error + 'b list) \<times> world" where
  "map_throw f [] s = (Inr [], s)"
| "map_throw f (x # xs) s =
     (case f x s of
        (Inl e, s1) \<Rightarrow> (Inl e, s1)
      | (Inr v, s1) \<Rightarrow>
          (case map_throw f xs s1 of
             (Inl e, s2) \<Rightarrow> (Inl e, s2)
           | (Inr vs, s2) \<Rightarrow> (Inr (v # vs), s2)))"

text \<open>
  The \<open>prepare\<close> hook: \<open>shouldOutput = (await prepare(result)) ?? true\<close>. The hooks are taken
  to read the aggregate; one that mutates it in place is outside the model.
\<close>

definition run_prepare :: "config \<Rightarrow> aggregate \<Rightarrow> world \<Rightarrow> (js_error + bool) \<times> world" where
  "run_prepare cfg res s =
     (case prepare cfg of
        None \<Rightarrow> (Inr True, s)
      | Some hook \<Rightarrow>
          (case hook res of
             Inl e \<Rightarrow> (Inl e, emit (Prepare res) s)
           | Inr r \<Rightarrow>
               (let shouldOutput = (case r of None \<Rightarrow> True | Some b \<Rightarrow> b)
                in (Inr shouldOutput,
                    emit (Log (''executed '' @ [CHR 0x27] @ ''prepare'' @ [CHR 0x27]
                               @ '' callback got ''
                               @ (if shouldOutput then ''true'' else ''false'')))
                      (emit (Prepare res) s)))))"

definition run_complete :: "config \<Rightarrow> aggregate \<Rightarrow> world \<Rightarrow> js_error option \<times> world" where
  "run_complete cfg res s =
     (case complete cfg of
        None \<Rightarrow> (None, s)
      | Some hook \<Rightarrow>
          (case hook res of
             Some e \<Rightarrow> (Some e, emit (Complete res) s)
           | None \<Rightarrow>
               (None,
                emit (Log (''executed '' @ [CHR 0x27] @ ''complete'' @ [CHR 0x27] @ '' callback''))
                  (emit (Complete res) s))))"

text \<open>\<open>resolve\<close> from \<open>let shouldOutput = true\<close> on: the hooks and the output.\<close>

definition emit_output :: "env \<Rightarrow> config \<Rightarrow> aggregate \<Rightarrow> world \<Rightarrow> (js_error + aggregate) \<times> world" where
  "emit_output E cfg res s =
     (case run_prepare cfg res s of
        (Inl e, s1) \<Rightarrow> (Inl e, s1)
      | (Inr shouldOutput, s1) \<Rightarrow>
          (case (if shouldOutput
                 then (outputData E (output_data cfg) res,
                       emit (OutputData (output_data cfg) res) s1)
                 else (None,
                       emit (Warn (''prevent output by '' @ [CHR 0x27] @ ''prepare''
                                   @ [CHR 0x27] @ '' callback'')) s1)) of
             (Some e, s2) \<Rightarrow> (Inl e, s2)
           | (None, s2) \<Rightarrow>
               (case outputAssets E (output_assets cfg) (assets s2) of
                  Some e \<Rightarrow> (Inl e, emit (OutputAssets (output_assets cfg) (assets s2)) s2)
                | None \<Rightarrow>
                    (case run_complete cfg res
                            (emit (OutputAssets (output_assets cfg) (assets s2)) s2) of
                       (Some e, s3) \<Rightarrow> (Inl e, s3)
                     | (None, s3) \<Rightarrow>
                         (Inr res,
                          emit (Log (''resolved '' @ string_of_nat (length res)
                                     @ '' collections'')) s3)))))"

text \<open>
  \<open>resolve\<close> up to \<open>entries\<close>: the callback for every collection, under \<open>Promise.all\<close>.
\<close>

definition resolve_entries :: "env \<Rightarrow> config \<Rightarrow> string option \<Rightarrow> world
    \<Rightarrow> (js_error + (string \<times> vfile list) list) \<times> world" where
  "resolve_entries E cfg changed s =
     (case run_all (resolve_collection E cfg changed) (collections cfg)
             (emit (Log (''resolving collections from '' @ [CHR 0x27] @ root cfg @ [CHR 0x27])) s) of
        (rs, s1) \<Rightarrow> (promise_all rs, s1))"

text \<open>
  \<open>resolve\<close> from \<open>allFiles\<close> to \<open>result\<close>: the report of all messages, the strict check
  and the aggregate (\<open>Object.fromEntries\<close> of entries whose names are the distinct keys of
  \<open>collections\<close>).
\<close>

definition issues_warning :: "(string \<times> vfile list) list \<Rightarrow> event" where
  "issues_warning entries =
     Warn (''issues:'' @ [CHR 0x0A] @ reporter (concat (map snd entries)))"

definition aggregate_entries :: "config \<Rightarrow> (string \<times> vfile list) list \<Rightarrow> world
    \<Rightarrow> (js_error + aggregate) \<times> world" where
  "aggregate_entries cfg entries s =
     (let allFiles = concat (map snd entries);
          report = reporter allFiles;
          s1 = (if length report > 0 then emit (issues_warning entries) s else s)
      in if length report > 0 \<and> strict cfg
         then (Inl (Error ''Schema validation failed.''), s1)
         else map_throw (collect cfg) entries s1)"

definition resolve :: "env \<Rightarrow> config \<Rightarrow> string option \<Rightarrow> world \<Rightarrow> (js_error + aggregate) \<times> world" where
  "resolve E cfg changed s =
     (case resolve_entries E cfg changed s of
        (Inl e, s1) \<Rightarrow> (Inl e, s1)
      | (Inr entries, s1) \<Rightarrow>
          (case aggregate_entries cfg entries s1 of
             (Inl e, s2) \<Rightarrow> (Inl e, s2)
           | (Inr res, s2) \<Rightarrow> emit_output E cfg res s2))"

section \<open>\<open>build\<close> and the Rebuild Coordinator: \<open>watch\<close>\<close>

record options =
  opt_config :: "string option"
  opt_clean :: "bool option"
  opt_watch :: "bool option"
  opt_logLevel :: "string option"
  opt_strict :: "bool option"

text \<open>
  \<open>watch\<close> up to the registration of the handler: the watched files are the patterns of
  all collections and the config imports. The world then holds the watcher and the config
  its handler closes over.
\<close>

definition watch :: "env \<Rightarrow> config \<Rightarrow> world \<Rightarrow> world" where
  "watch E cfg s =
     (emit (Watch (concat (map (\<lambda>nc. pattern (snd nc)) (collections cfg)) @ configImports cfg))
        (emit (Info (''watching for changes in '' @ [CHR 0x27] @ root cfg @ [CHR 0x27])) s))
     \<lparr>watcher := Some cfg\<rparr>"

text \<open>
  \<open>build\<close>. The one-second \<open>building...\<close> timer is left out; \<open>rm\<close> and \<open>mkdir\<close> are
  events. \<open>options.watch && watch(config)\<close> starts the watcher without awaiting it.
\<close>

definition build :: "env \<Rightarrow> options \<Rightarrow> world \<Rightarrow> (js_error + aggregate) \<times> world" where
  "build E opts s =
     (let s0 = (case opt_logLevel opts of None \<Rightarrow> s | Some l \<Rightarrow> emit (SetLogLevel l) s) in
      case resolveConfig E (opt_config opts) (opt_clean opts) (opt_strict opts) of
        Inl e \<Rightarrow> (Inl e, s0)
      | Inr cfg \<Rightarrow>
          (let s1 = (if output_clean cfg
                     then emit (Log (''cleaned assets output dir '' @ [CHR 0x27]
                                     @ output_assets cfg @ [CHR 0x27]))
                            (emit (Rm (output_assets cfg))
                               (emit (Log (''cleaned data output dir '' @ [CHR 0x27]
                                           @ output_data cfg @ [CHR 0x27]))
                                  (emit (Rm (output_data cfg)) s0)))
                     else s0);
               s2 = emit (OutputEntry (output_data cfg) (configPath cfg)
                            (map fst (collections cfg)))
                      (emit (Mkdir (output_assets cfg)) (emit (Mkdir (output_data cfg)) s1))
           in case outputEntry E (output_data cfg) (configPath cfg) (map fst (collections cfg)) of
                Some e \<Rightarrow> (Inl e, s2)
              | None \<Rightarrow>
                  (case resolve E cfg None (emit (Log ''initialized'') s2) of
                     (Inl e, s3) \<Rightarrow> (Inl e, s3)
                   | (Inr res, s3) \<Rightarrow>
                       (Inr res,
                        (if opt_watch opts = Some True
                         then watch E cfg (emit (Info ''build finished'') s3)
                         else emit (Info ''build finished'') s3)))))"

datatype fs_event = EvAdd | EvChange | EvUnlink | EvAddDir | EvUnlinkDir

text \<open>
  The loop over \<open>config.cache.entries()\<close> in the handler: every entry whose value is the
  changed file name is deleted.
\<close>

definition remove_changed :: "string \<Rightarrow> (string \<times> val) list \<Rightarrow> (string \<times> val) list" where
  "remove_changed filename c = filter (\<lambda>kv. snd kv \<noteq> VStr filename) c"

text \<open>
  The handler of \<open>watcher.on('all', ...)\<close> for the config \<open>cfg\<close> it closes over. Whatever
  the awaited \<open>resolve\<close> throws is caught and logged. \<open>return build(...)\<close> is not awaited
  inside the \<open>try\<close>, so a rejection of the restarted build is not caught there: it is the
  outcome \<open>RestartFailed\<close>.
\<close>

datatype outcome = Ignored | Rebuilt | RebuildFailed js_error | Restarted | RestartFailed js_error

definition on_all :: "env \<Rightarrow> config \<Rightarrow> fs_event \<Rightarrow> string option \<Rightarrow> world \<Rightarrow> outcome \<times> world" where
  "on_all E cfg event fname s =
     (if event = EvAddDir \<or> event = EvUnlinkDir then (Ignored, s)
      else case fname of
        None \<Rightarrow> (Ignored, s)
      | Some f0 \<Rightarrow>
          (let filename = join E (root cfg) f0;
               cfg1 = cfg\<lparr>cache := remove_changed filename (cache cfg)\<rparr>;
               s1 = s\<lparr>watcher := Some cfg1\<rparr>
           in if filename \<in> set (configImports cfg)
              then (case build E \<lparr>opt_config = Some (configPath cfg), opt_clean = Some False,
                                   opt_watch = Some True, opt_logLevel = None,
                                   opt_strict = None\<rparr>
                           ((emit WatcherClose
                               (emit (Info ''velite config changed, restarting...'') s1))
                            \<lparr>watcher := None\<rparr>) of
                      (Inl e, s2) \<Rightarrow> (RestartFailed e, s2)
                    | (Inr res, s2) \<Rightarrow> (Restarted, s2))
              else (case resolve E cfg1 (Some filename)
                           (emit (Info (''changed: '' @ [CHR 0x27] @ filename @ [CHR 0x27]
                                        @ '', rebuilding...'')) s1) of
                      (Inl err, s2) \<Rightarrow> (RebuildFailed err, emit (WarnErr err) s2)
                    | (Inr res, s2) \<Rightarrow> (Rebuilt, emit (Info ''rebuild finished'') s2))))"

text \<open>
  The watch loop: the events the watcher delivers, each to the handler of the watcher that
  is active then. The handlers are taken to run one after the other, a rebuild being over
  before the next event is handled. Once no watcher is active nothing is handled any more.
\<close>

fun watch_loop :: "env \<Rightarrow> (fs_event \<times> string option) list \<Rightarrow> world \<Rightarrow> outcome list \<times> world" where
  "watch_loop E [] s = ([], s)"
| "watch_loop E (ev # evs) s =
     (case watcher s of
        None \<Rightarrow> ([], s)
      | Some cfg \<Rightarrow>
          (case on_all E cfg (fst ev) (snd ev) s of
             (out, s1) \<Rightarrow>
               (case watch_loop E evs s1 of (outs, s2) \<Rightarrow> (out # outs, s2))))"

section \<open>The markdown field transform\<close>

text \<open>
  The plugins, by name: the three the transform adds and those of the user. What a plugin
  does to the syntax tree is the business of the pipeline.
\<close>

datatype plugin = RemarkGfm | RemarkRemoveComments | RehypeCopyLinkedFiles | Plugin string

text \<open>\<open>MarkdownOptions\<close>; \<open>None\<close> is a key that is absent.\<close>

record markdown_options =
  gfm :: "bool option"
  removeComments :: "bool option"
  copyLinkedFiles :: "bool option"
  remarkPlugins :: "plugin list option"
  rehypePlugins :: "plugin list option"

record zod_issue =
  code :: string
  message :: string

text \<open>
  What the transform reads and writes through \<open>ctx\<close>: the path and the content of
  \<open>ctx.meta.file\<close>, \<open>ctx.meta.config.markdown\<close> (with its two plugin arrays, which the
  transform pushes to) and the issues added by \<open>ctx.addIssue\<close>.
\<close>

record refinement_ctx =
  file_path :: string
  file_content :: "string option"
  config_markdown :: "markdown_options option"
  issues :: "zod_issue list"

definition empty_options :: markdown_options where
  "empty_options = \<lparr>gfm = None, removeComments = None, copyLinkedFiles = None,
                     remarkPlugins = None, rehypePlugins = None\<rparr>"

text \<open>\<open>const { x = true } = { ...markdown, ...options }\<close> for one key.\<close>

definition merged :: "bool option \<Rightarrow> bool option \<Rightarrow> bool" where
  "merged from_markdown from_options =
     (case from_options of
        Some b \<Rightarrow> b
      | None \<Rightarrow> (case from_markdown of Some b \<Rightarrow> b | None \<Rightarrow> True))"

definition or_empty :: "'a list option \<Rightarrow> 'a list" where
  "or_empty xs = (case xs of None \<Rightarrow> [] | Some ys \<Rightarrow> ys)"

text \<open>
  The value the pipeline works on: \<open>file.data.content\<close> stands in for an absent value.
\<close>

definition input_of :: "string option \<Rightarrow> refinement_ctx \<Rightarrow> string option" where
  "input_of value0 ctx =
     (if value0 = None \<and> file_content ctx \<noteq> None then file_content ctx else value0)"

definition markdown_of :: "refinement_ctx \<Rightarrow> markdown_options" where
  "markdown_of ctx = (case config_markdown ctx of None \<Rightarrow> empty_options | Some m \<Rightarrow> m)"

text \<open>The plugin arrays after the five \<open>push\<close> statements.\<close>

definition remark_of :: "markdown_options \<Rightarrow> refinement_ctx \<Rightarrow> plugin list" where
  "remark_of opts ctx =
     or_empty (remarkPlugins (markdown_of ctx))
     @ (if merged (gfm (markdown_of ctx)) (gfm opts) then [RemarkGfm] else [])
     @ (if merged (removeComments (markdown_of ctx)) (removeComments opts)
        then [RemarkRemoveComments] else [])
     @ or_empty (remarkPlugins opts)"

definition rehype_of :: "markdown_options \<Rightarrow> refinement_ctx \<Rightarrow> plugin list" where
  "rehype_of opts ctx =
     or_empty (rehypePlugins (markdown_of ctx))
     @ (if merged (copyLinkedFiles (markdown_of ctx)) (copyLinkedFiles opts)
        then [RehypeCopyLinkedFiles] else [])
     @ or_empty (rehypePlugins opts)"

text \<open>
  The pushes go to the arrays of \<open>config.markdown\<close> themselves where it has them (to a
  fresh \<open>[]\<close> otherwise), so the config keeps what was pushed.
\<close>

definition pushed :: "markdown_options \<Rightarrow> refinement_ctx \<Rightarrow> refinement_ctx" where
  "pushed opts ctx =
     ctx\<lparr>config_markdown :=
       (case config_markdown ctx of
          None \<Rightarrow> None
        | Some m \<Rightarrow>
            Some (m\<lparr>remarkPlugins :=
                       (case remarkPlugins m of None \<Rightarrow> None | Some ps \<Rightarrow> Some (remark_of opts ctx)),
                     rehypePlugins :=
                       (case rehypePlugins m of None \<Rightarrow> None | Some ps \<Rightarrow> Some (rehype_of opts ctx))\<rparr>))\<rparr>"

text \<open>\<open>ctx.addIssue({ code: 'custom', message })\<close>.\<close>

definition addIssue :: "string \<Rightarrow> refinement_ctx \<Rightarrow> refinement_ctx" where
  "addIssue m ctx = ctx\<lparr>issues := issues ctx @ [\<lparr>code = ''custom'', message = m\<rparr>]\<rparr>"

text \<open>
  The transform of \<open>markdown(options)\<close>. \<open>process\<close> is the unified pipeline, a parameter:
  given the remark plugins, the rehype plugins, the value and the path of the file it yields
  the HTML or throws. The result is the value the transform returns and the context after it.
\<close>

definition markdown :: "markdown_options
    \<Rightarrow> (plugin list \<Rightarrow> plugin list \<Rightarrow> string option \<Rightarrow> string \<Rightarrow> js_error + string)
    \<Rightarrow> string option \<Rightarrow> refinement_ctx \<Rightarrow> string option \<times> refinement_ctx" where
  "markdown opts process value0 ctx =
     (let value = input_of value0 ctx in
      case process (remark_of opts ctx) (rehype_of opts ctx) value (file_path ctx) of
        Inr html \<Rightarrow> (Some html, pushed opts ctx)
      | Inl err \<Rightarrow> (value, addIssue (err_message err) (pushed opts ctx)))"

section \<open>Notions used in the statements\<close>

text \<open>What the callback of \<open>load\<close> returns for a record: its output, or \<open>undefined\<close>.\<close>

definition output_of :: "schema \<Rightarrow> vfile \<Rightarrow> val \<Rightarrow> val" where
  "output_of sch meta0 item = (case sch item meta0 of Inr d \<Rightarrow> d | Inl is \<Rightarrow> VUndefined)"

text \<open>The outputs of the records of a file that validate, in input order.\<close>

definition successful_outputs :: "schema \<Rightarrow> vfile \<Rightarrow> val list \<Rightarrow> val list" where
  "successful_outputs sch meta0 items =
     concat (map (\<lambda>item. case sch item meta0 of Inr d \<Rightarrow> [d] | Inl is \<Rightarrow> []) items)"

text \<open>
  The message of an issue of the record at the positional path \<open>ctx_path\<close>: its locator is
  that path joined with the field path of the issue.
\<close>

definition locator :: "seg list \<Rightarrow> issue \<Rightarrow> vmessage" where
  "locator ctx_path i =
     \<lparr>reason = issue_message i, source = join_with ''.'' (map seg_str (ctx_path @ issue_path i))\<rparr>"

definition record_messages :: "schema \<Rightarrow> vfile \<Rightarrow> seg list \<Rightarrow> val \<Rightarrow> vmessage list" where
  "record_messages sch meta0 ctx_path item =
     (case sch item meta0 of Inr d \<Rightarrow> [] | Inl is \<Rightarrow> map (locator ctx_path) is)"

text \<open>The messages of the records \<open>items\<close>, which stand at the indices from \<open>i\<close> on.\<close>

definition indexed_messages :: "schema \<Rightarrow> vfile \<Rightarrow> nat \<Rightarrow> val list \<Rightarrow> vmessage list" where
  "indexed_messages sch meta0 i items =
     concat (map (\<lambda>ji. record_messages sch meta0 [Idx (fst ji)] (snd ji))
               (zip [i..<i + length items] items))"

text \<open>
  The File Representation of a path whose file holds \<open>recs\<close>, in closed form: the messages
  of the records that fail, the outputs of all records (\<open>undefined\<close> for one that fails).
\<close>

definition file_of :: "schema \<Rightarrow> string \<Rightarrow> val \<Rightarrow> vfile" where
  "file_of sch p recs =
     \<lparr>path = p, records = recs,
      messages = (if isArray recs then indexed_messages sch (new_file p recs) 0 (spread recs)
                  else record_messages sch (new_file p recs) [] recs),
      result = (if isArray recs then VArr (map (output_of sch (new_file p recs)) (spread recs))
                else output_of sch (new_file p recs) recs)\<rparr>"

text \<open>\<open>files.flatMap(file => file.result)\<close>, the flattened results before the filter.\<close>

definition flattened :: "vfile list \<Rightarrow> val list" where
  "flattened files = concat (map (\<lambda>file. spread (result file)) files)"

text \<open>The events of output emission.\<close>

fun is_output :: "event \<Rightarrow> bool" where
  "is_output (OutputData d a) = True"
| "is_output (OutputAssets d a) = True"
| "is_output e = False"

text \<open>A step that leaves the assets and the watcher alone and emits no output.\<close>

definition quiet :: "world \<Rightarrow> world \<Rightarrow> bool" where
  "quiet s s' \<longleftrightarrow>
     assets s' = assets s \<and> watcher s' = watcher s
     \<and> filter is_output (trace s') = filter is_output (trace s)"

text \<open>The entry of the aggregate that \<open>collect\<close> returns for an entry, when it returns.\<close>

definition entry_value :: "config \<Rightarrow> string \<times> vfile list \<Rightarrow> string \<times> val" where
  "entry_value cfg nf =
     (fst nf,
      (case map_of (collections cfg) (fst nf) of
         None \<Rightarrow> VUndefined
       | Some c \<Rightarrow> if single c then first_of (data_of (snd nf)) else VArr (data_of (snd nf))))"

text \<open>What the \<open>prepare\<close> hook decides: a thrown error, or \<open>shouldOutput\<close>.\<close>

definition prepare_verdict :: "config \<Rightarrow> aggregate \<Rightarrow> js_error + bool" where
  "prepare_verdict cfg res =
     (case prepare cfg of
        None \<Rightarrow> Inr True
      | Some hook \<Rightarrow>
          (case hook res of
             Inl e \<Rightarrow> Inl e
           | Inr r \<Rightarrow> Inr (case r of None \<Rightarrow> True | Some b \<Rightarrow> b)))"

text \<open>A step that only adds events to the trace.\<close>

definition extends :: "world \<Rightarrow> world \<Rightarrow> bool" where
  "extends s s' \<longleftrightarrow> (\<exists>evs. trace s' = trace s @ evs)"

text \<open>
  The config of the handler after the entries of the changed file have left its cache, and
  the pass the handler awaits for a changed content file.
\<close>

definition invalidated :: "string \<Rightarrow> config \<Rightarrow> config" where
  "invalidated filename cfg = cfg\<lparr>cache := remove_changed filename (cache cfg)\<rparr>"

definition rebuild_pass :: "env \<Rightarrow> config \<Rightarrow> string \<Rightarrow> world \<Rightarrow> (js_error + aggregate) \<times> world" where
  "rebuild_pass E cfg filename s =
     resolve E (invalidated filename cfg) (Some filename)
       (emit (Info (''changed: '' @ [CHR 0x27] @ filename @ [CHR 0x27] @ '', rebuilding...''))
          (s\<lparr>watcher := Some (invalidated filename cfg)\<rparr>))"

text \<open>The options of the restart, and the world in which the restarted build begins.\<close>

definition restart_options :: "config \<Rightarrow> options" where
  "restart_options cfg =
     \<lparr>opt_config = Some (configPath cfg), opt_clean = Some False, opt_watch = Some True,
      opt_logLevel = None, opt_strict = None\<rparr>"

definition watcher_closed :: "world \<Rightarrow> world" where
  "watcher_closed s =
     (emit WatcherClose (emit (Info ''velite config changed, restarting...'') s))
     \<lparr>watcher := None\<rparr>"

section \<open>Example inputs\<close>

text \<open>A schema of numbers, and a schema of objects with a string \<open>title\<close>.\<close>

definition sch_num :: schema where
  "sch_num item meta =
     (case item of
        VNum n \<Rightarrow> Inr (VNum n)
      | _ \<Rightarrow> Inl [\<lparr>issue_message = ''Expected number'', issue_path = []\<rparr>])"

definition sch_post :: schema where
  "sch_post item meta =
     (case item of
        VObj kvs \<Rightarrow>
          (case map_of kvs ''title'' of
             Some (VStr t) \<Rightarrow> Inr item
           | _ \<Rightarrow> Inl [\<lparr>issue_message = ''Required'', issue_path = [Key ''title'']\<rparr>])
      | _ \<Rightarrow> Inl [\<lparr>issue_message = ''Expected object'', issue_path = []\<rparr>])"

definition post :: "string \<Rightarrow> val" where
  "post t = VObj [(''title'', VStr t)]"

text \<open>A content tree of five files.\<close>

definition tree :: "string \<Rightarrow> js_error + val" where
  "tree p =
     (if p = ''/c/nums.json'' then Inr (VArr [VNum 0, VNum 5])
      else if p = ''/c/posts.json'' then Inr (VArr [post ''a'', VObj [], post ''b''])
      else if p = ''/c/site.json'' then Inr (VObj [(''name'', VStr ''x'')])
      else if p = ''/c/about.json'' then Inr (post ''about'')
      else if p = ''/c/zero.json'' then Inr (VNum 0)
      else Inl (Error ''ENOENT''))"

definition config_of :: "(string \<times> collection) list \<Rightarrow> bool \<Rightarrow> config" where
  "config_of cols st =
     \<lparr>root = ''/c'', configPath = ''/c/velite.config.js'',
      configImports = [''/c/velite.config.js''],
      output_data = ''.velite'', output_assets = ''public'', output_clean = False,
      collections = cols, strict = st, prepare = None, complete = None, cache = []\<rparr>"

definition nums :: "string \<times> collection" where
  "nums = (''nums'', \<lparr>pattern = [''nums.json''], schema = sch_num, single = False\<rparr>)"

definition posts :: "string \<times> collection" where
  "posts = (''posts'', \<lparr>pattern = [''posts.json''], schema = sch_post, single = False\<rparr>)"

definition site :: "string \<times> collection" where
  "site = (''site'', \<lparr>pattern = [''site.json''], schema = sch_post, single = True\<rparr>)"

definition about :: "string \<times> collection" where
  "about = (''about'', \<lparr>pattern = [''about.json''], schema = sch_post, single = True\<rparr>)"

text \<open>
  Collaborators for the examples: patterns are file names under the root, every writer
  succeeds, and the config file resolves to the collections \<open>posts\<close> and \<open>about\<close>.
\<close>

definition env0 :: env where
  "env0 = \<lparr>normalize = (\<lambda>p. p),
           join = (\<lambda>r f. r @ ''/'' @ f),
           read_records = tree,
           glob = (\<lambda>pat r. Inr (map (\<lambda>f. r @ ''/'' @ f) pat)),
           contains = (\<lambda>ch pat. ch \<in> set (map (\<lambda>f. ''/c/'' @ f) pat)),
           outputData = (\<lambda>d a. None),
           outputAssets = (\<lambda>d a. None),
           outputEntry = (\<lambda>d c ns. None),
           resolveConfig = (\<lambda>c cl st. Inr (config_of [posts, about] False))\<rparr>"

definition world0 :: world where
  "world0 = \<lparr>resolved = Map.empty, loaded = Map.empty, assets = [], watcher = None, trace = []\<rparr>"

text \<open>A world whose path cache holds an older representation of \<open>about.json\<close>.\<close>

definition world1 :: world where
  "world1 = world0\<lparr>loaded := [''/c/about.json'' \<mapsto> file_of sch_post ''/c/about.json'' (post ''old'')]\<rparr>"

text \<open>A pipeline that throws on the text \<open>boom\<close> and on an absent value.\<close>

definition pipeline0 :: "plugin list \<Rightarrow> plugin list \<Rightarrow> string option \<Rightarrow> string \<Rightarrow> js_error + string" where
  "pipeline0 remark rehype v p =
     (case v of
        None \<Rightarrow> Inl (Error ''Expected string'')
      | Some md \<Rightarrow>
          if md = ''boom'' then Inl (Error ''cannot process'')
          else Inr (''<p>'' @ md @ ''</p>''))"

definition ctx0 :: refinement_ctx where
  "ctx0 = \<lparr>file_path = ''/c/a.md'', file_content = Some ''body'', config_markdown = None,
           issues = []\<rparr>"

text \<open>A world after an earlier pass: \<open>resolved\<close> has an entry for \<open>about\<close>.\<close>

definition world2 :: world where
  "world2 = world1\<lparr>resolved := [''about'' \<mapsto> [file_of sch_post ''/c/about.json'' (post ''old'')]]\<rparr>"

text \<open>The config of \<open>posts\<close> with a \<open>prepare\<close> hook that returns \<open>r\<close>.\<close>

definition config_hook :: "bool option \<Rightarrow> config" where
  "config_hook r = (config_of [posts] False)\<lparr>prepare := Some (\<lambda>res. Inr r)\<rparr>"

text \<open>A watcher on the \<open>single\<close> collection \<open>site\<close>, whose only file fails validation.\<close>

definition world_site :: world where
  "world_site = world0\<lparr>watcher := Some (config_of [site] False)\<rparr>"

text \<open>A watcher on \<open>posts\<close> and \<open>about\<close>, in a world with entries in both caches.\<close>

definition world_watch :: world where
  "world_watch = world2\<lparr>watcher := Some (config_of [posts, about] False)\<rparr>"

text \<open>Two \<open>single\<close> collections of numbers: the array \<open>[0, 5]\<close>, and the lone record \<open>0\<close>.\<close>

definition first_num :: "string \<times> collection" where
  "first_num = (''first'', \<lparr>pattern = [''nums.json''], schema = sch_num, single = True\<rparr>)"

definition zero :: "string \<times> collection" where
  "zero = (''zero'', \<lparr>pattern = [''zero.json''], schema = sch_num, single = True\<rparr>)"





text \<open>
  The collaborators of \<open>env0\<close>, where the config file resolves to the \<open>single\<close> collection
  \<open>site\<close>, whose only file fails validation.
\<close>

definition env_site :: env where
  "env_site = env0\<lparr>resolveConfig := (\<lambda>c cl st. Inr (config_of [site] False))\<rparr>"


text \<open>The warnings among the events.\<close>

fun is_warning :: "event \<Rightarrow> bool" where
  "is_warning (Warn m) = True"
| "is_warning (WarnErr e) = True"
| "is_warning e = False"

section \<open>Properties of the Record Parser\<close>

lemma emit_simps [simp]:
  "trace (emit e s) = trace s @ [e]"
  "resolved (emit e s) = resolved s"
  "loaded (emit e s) = loaded s"
  "assets (emit e s) = assets s"
  "watcher (emit e s) = watcher s"
  by (simp_all add: emit_def)

lemma fst_parse_item:
  "fst (parse_item sch isArr meta0 item i meta) = output_of sch meta0 item"
  by (simp add: parse_item_def safeParseAsync_def output_of_def split: sum.splits)

lemma fst_parse_list:
  "fst (parse_list sch isArr meta0 items i meta) = map (output_of sch meta0) items"
  by (induction items arbitrary: i meta) (simp_all add: fst_parse_item split_beta)

lemma parse_item_messages:
  "snd (parse_item sch isArr meta0 item i meta) =
     meta\<lparr>messages := messages meta
        @ record_messages sch meta0 (if isArr then [Idx i] else []) item\<rparr>"
  by (simp add: parse_item_def safeParseAsync_def record_messages_def issue_message_of_def
      locator_def o_def split: sum.splits)

lemma snd_parse_list_array:
  "snd (parse_list sch True meta0 items i meta) =
     meta\<lparr>messages := messages meta @ indexed_messages sch meta0 i items\<rparr>"
proof (induction items arbitrary: i meta)
  case Nil
  then show ?case by (simp add: indexed_messages_def)
next
  case (Cons item items)
  have upt: "[i..<i + length (item # items)] = i # [Suc i..<Suc i + length items]"
    by (simp add: upt_rec)
  have step: "indexed_messages sch meta0 i (item # items) =
      record_messages sch meta0 [Idx i] item @ indexed_messages sch meta0 (Suc i) items"
    unfolding indexed_messages_def upt by simp
  show ?case
    by (simp add: split_beta Cons.IH parse_item_messages step)
qed

lemma load_fresh_throws:
  "read_records E p = Inl e \<Longrightarrow> load_fresh E p sch s = (Inl e, emit (Create p) s)"
  by (simp add: load_fresh_def VeliteFile_create_def)

lemma load_fresh_returns:
  assumes "read_records E p = Inr recs"
  shows "load_fresh E p sch s =
     (Inr (file_of sch p recs),
      s\<lparr>loaded := (loaded s)(p \<mapsto> file_of sch p recs),
         trace := trace s @ Create p # validate_events p (length (record_list recs))\<rparr>)"
proof (cases "isArray recs")
  case True
  then show ?thesis using assms
    by (simp add: load_fresh_def VeliteFile_create_def Let_def split_beta fst_parse_list
        snd_parse_list_array record_list_def file_of_def emit_def)
       (simp add: new_file_def)
next
  case False
  then show ?thesis using assms
    by (simp add: load_fresh_def VeliteFile_create_def Let_def split_beta fst_parse_item
        parse_item_messages record_list_def file_of_def emit_def first_of_def)
       (simp add: new_file_def)
qed

lemma load_hit:
  "changed = Some ch \<Longrightarrow> normalize E p0 \<noteq> ch \<Longrightarrow> VeliteFile_get (normalize E p0) s = Some f
     \<Longrightarrow> load E cfg p0 sch changed s = (Inr f, s)"
  by (simp add: load_def load_cached_def)

lemma load_miss:
  "changed = None \<or> changed = Some (normalize E p0) \<or> VeliteFile_get (normalize E p0) s = None
     \<Longrightarrow> load E cfg p0 sch changed s = load_fresh E (normalize E p0) sch s"
  by (auto simp: load_def load_cached_def Let_def split: option.splits)

text \<open>
  C5. A call of \<open>load\<close> with a \<open>changed\<close> hint that is not the normalized path of the file,
  for a path that \<open>VeliteFile.get\<close> knows, returns the cached representation and leaves the
  world as it is: nothing is read and nothing validated. In every other case the file is
  created anew: a file that cannot be read is the thrown error; otherwise every record of
  \<open>list\<close> is validated (one \<open>Validate\<close> event for each index), and the representation
  returned, which replaces the cached one, has the output of every record and the messages
  of those that fail.
\<close>

theorem load_changed_hint:
  "(changed = Some ch \<and> normalize E p0 \<noteq> ch \<and> VeliteFile_get (normalize E p0) s = Some f
      \<longrightarrow> load E cfg p0 sch changed s = (Inr f, s))
   \<and> (changed = None \<or> changed = Some (normalize E p0) \<or> VeliteFile_get (normalize E p0) s = None
      \<longrightarrow> (\<forall>e. read_records E (normalize E p0) = Inl e
              \<longrightarrow> load E cfg p0 sch changed s = (Inl e, emit (Create (normalize E p0)) s))
        \<and> (\<forall>recs. read_records E (normalize E p0) = Inr recs
              \<longrightarrow> load E cfg p0 sch changed s =
                    (Inr (file_of sch (normalize E p0) recs),
                     s\<lparr>loaded := (loaded s)(normalize E p0 \<mapsto> file_of sch (normalize E p0) recs),
                        trace := trace s @ Create (normalize E p0)
                                 # map (Validate (normalize E p0)) [0..<length (record_list recs)]\<rparr>)))"
  using load_hit [of changed ch E p0 s f cfg sch] load_miss [of changed E p0 s cfg sch]
  by (auto simp: load_fresh_throws load_fresh_returns validate_events_def simp del: upt.simps)

theorem load_changed_hint_witness:
  "load env0 (config_of [about] False) ''/c/about.json'' sch_post (Some ''/c/posts.json'') world1
     = (Inr (file_of sch_post ''/c/about.json'' (post ''old'')), world1)
   \<and> fst (load env0 (config_of [about] False) ''/c/about.json'' sch_post (Some ''/c/about.json'') world1)
     = Inr (file_of sch_post ''/c/about.json'' (post ''about''))"
  using load_changed_hint [of "Some ''/c/posts.json''" "''/c/posts.json''" env0 "''/c/about.json''"
      world1 "file_of sch_post ''/c/about.json'' (post ''old'')" "config_of [about] False" sch_post]
    load_changed_hint [of "Some ''/c/about.json''" "''/c/about.json''" env0 "''/c/about.json''"
      world1 "file_of sch_post ''/c/about.json'' (post ''old'')" "config_of [about] False" sch_post]
  by (simp add: env0_def world1_def world0_def VeliteFile_get_def tree_def)

lemma filter_truthy_outputs:
  "filter truthy (map (output_of sch m) items) = filter truthy (successful_outputs sch m items)"
  by (induction items) (simp_all add: output_of_def successful_outputs_def split: sum.splits)

lemma data_of_append: "data_of (fs @ gs) = data_of fs @ data_of gs"
  by (simp add: data_of_def)

lemma data_of_array_file:
  "data_of [file_of sch p (VArr items)] =
     filter truthy (successful_outputs sch (new_file p (VArr items)) items)"
  by (simp add: data_of_def file_of_def filter_truthy_outputs)

lemma indexed_messages_member:
  assumes "j < length items" and "sch (items ! j) m = Inl is" and "i \<in> set is"
  shows "locator [Idx j] i \<in> set (indexed_messages sch m 0 items)"
proof -
  have "(j, items ! j) \<in> set (zip [0..<0 + length items] items)"
    using assms(1) by (auto simp: set_zip intro!: exI [of _ j])
  moreover have "locator [Idx j] i \<in> set (record_messages sch m [Idx j] (items ! j))"
    using assms(2,3) by (simp add: record_messages_def)
  ultimately show ?thesis
    unfolding indexed_messages_def by (auto intro!: bexI [of _ "(j, items ! j)"])
qed

lemma collect_many:
  "map_of (collections cfg) name = Some c \<Longrightarrow> \<not> single c \<Longrightarrow>
     fst (collect cfg (name, files) w) = Inr (name, VArr (data_of files))"
  by (simp add: collect_def Let_def)

section \<open>Properties of the Collection Resolver\<close>

lemma quiet_refl [simp]: "quiet s s"
  by (simp add: quiet_def)

lemma quiet_trans: "quiet a b \<Longrightarrow> quiet b c \<Longrightarrow> quiet a c"
  by (simp add: quiet_def)

lemma quiet_emit: "\<not> is_output e \<Longrightarrow> quiet s (emit e s)"
  by (simp add: quiet_def)

lemma run_all_inv:
  assumes "\<And>x s. R s (snd (f x s))" and "\<And>s. R s s" and "\<And>a b c. R a b \<Longrightarrow> R b c \<Longrightarrow> R a c"
  shows "R s (snd (run_all f xs s))"
proof (induction xs arbitrary: s)
  case Nil
  show ?case by (simp add: assms(2))
next
  case (Cons x xs)
  have "R s (snd (f x s))" by (rule assms(1))
  moreover have "R (snd (f x s)) (snd (run_all f xs (snd (f x s))))" by (rule Cons.IH)
  ultimately show ?case
    by (simp add: split_beta) (rule assms(3))
qed

lemma map_throw_inv:
  assumes "\<And>x s. R s (snd (f x s))" and "\<And>s. R s s" and "\<And>a b c. R a b \<Longrightarrow> R b c \<Longrightarrow> R a c"
  shows "R s (snd (map_throw f xs s))"
proof (induction xs arbitrary: s)
  case Nil
  show ?case by (simp add: assms(2))
next
  case (Cons x xs)
  have 1: "R s (snd (f x s))" by (rule assms(1))
  have 2: "R (snd (f x s)) (snd (map_throw f xs (snd (f x s))))" by (rule Cons.IH)
  show ?case
    using 1 assms(3) [OF 1 2] by (auto simp: split_beta split: sum.splits prod.splits)
qed

lemma filter_validate_events [simp]: "filter is_output (validate_events p n) = []"
  by (simp add: validate_events_def filter_empty_conv)

lemma load_fresh_quiet: "quiet s (snd (load_fresh E p sch s))"
  by (cases "read_records E p")
     (simp_all add: load_fresh_throws load_fresh_returns quiet_def)

lemma load_fresh_resolved: "resolved (snd (load_fresh E p sch s)) = resolved s"
  by (cases "read_records E p") (simp_all add: load_fresh_throws load_fresh_returns)

lemma load_quiet: "quiet s (snd (load E cfg p sch ch s))"
  by (simp add: load_def Let_def load_fresh_quiet split: option.splits)

lemma load_resolved: "resolved (snd (load E cfg p sch ch s)) = resolved s"
  by (simp add: load_def Let_def load_fresh_resolved split: option.splits)

lemma run_all_load_quiet: "quiet s (snd (run_all (\<lambda>p. load E cfg p sch ch) ps s))"
  by (rule run_all_inv [where R = quiet]) (auto intro: load_quiet quiet_trans)

lemma run_all_load_resolved:
  "resolved (snd (run_all (\<lambda>p. load E cfg p sch ch) ps s)) = resolved s"
  by (rule run_all_inv [where R = "\<lambda>s s'. resolved s' = resolved s"]) (simp_all add: load_resolved)

lemma resolve_collection_skip:
  "skip_collection E ch (pattern (snd nc)) (fst nc) s = Some files \<Longrightarrow>
     resolve_collection E cfg ch nc s =
       (Inr (fst nc, files),
        emit (Log (''skipped resolve '' @ [CHR 0x27] @ fst nc @ [CHR 0x27]
                   @ '', using previous resolved'')) s)"
  by (simp add: resolve_collection_def Let_def)

lemma resolve_collection_quiet: "quiet s (snd (resolve_collection E cfg ch nc s))"
proof (cases "skip_collection E ch (pattern (snd nc)) (fst nc) s")
  case (Some files)
  then show ?thesis by (simp add: resolve_collection_skip quiet_emit)
next
  case None
  have g: "quiet s (emit (Glob (pattern (snd nc)) (root cfg)) s)"
    by (simp add: quiet_emit)
  show ?thesis
  proof (cases "glob E (pattern (snd nc)) (root cfg)")
    case (Inl e)
    with None g show ?thesis by (simp add: resolve_collection_def Let_def)
  next
    case (Inr paths)
    let ?s0 = "emit (Glob (pattern (snd nc)) (root cfg)) s"
    let ?r = "run_all (\<lambda>p. load E cfg p (schema (snd nc)) ch) paths ?s0"
    have q: "quiet s (snd ?r)"
      using g run_all_load_quiet [of ?s0 E cfg "schema (snd nc)" ch paths] by (rule quiet_trans)
    then have "quiet s ((emit (Log m) (snd ?r))\<lparr>resolved := r\<rparr>)" for m r
      by (simp add: quiet_def)
    with q None Inr show ?thesis
      by (simp add: resolve_collection_def Let_def split_beta split: sum.splits)
  qed
qed

lemma resolve_collection_resolved_other:
  assumes "fst nc \<noteq> name"
  shows "resolved (snd (resolve_collection E cfg ch nc s)) name = resolved s name"
proof (cases "skip_collection E ch (pattern (snd nc)) (fst nc) s")
  case (Some files)
  then show ?thesis by (simp add: resolve_collection_skip)
next
  case None
  with assms show ?thesis
    by (simp add: resolve_collection_def Let_def split_beta run_all_load_resolved
        split: sum.splits)
qed

lemma resolve_collection_entry:
  assumes "fst (resolve_collection E cfg ch nc s) = Inr (n, fs)"
  shows "n = fst nc \<and> resolved (snd (resolve_collection E cfg ch nc s)) n = Some fs"
proof (cases "skip_collection E ch (pattern (snd nc)) (fst nc) s")
  case (Some files)
  moreover from Some have "resolved s (fst nc) = Some files"
    by (simp add: skip_collection_def split: option.splits if_splits)
  ultimately show ?thesis using assms by (simp add: resolve_collection_skip)
next
  case None
  with assms show ?thesis
    by (auto simp: resolve_collection_def Let_def split_beta split: sum.splits)
qed

lemma promise_all_Cons_Inr:
  "promise_all (r # rs) = Inr entries \<Longrightarrow>
     \<exists>v vs. r = Inr v \<and> promise_all rs = Inr vs \<and> entries = v # vs"
  by (cases r) (auto split: sum.splits)

lemma run_all_resolved_other:
  "name \<notin> fst ` set cols \<Longrightarrow>
     resolved (snd (run_all (resolve_collection E cfg ch) cols s)) name = resolved s name"
proof (induction cols arbitrary: s)
  case Nil
  show ?case by simp
next
  case (Cons nc rest)
  then have "fst nc \<noteq> name" and "name \<notin> fst ` set rest" by auto
  then show ?case
    by (simp add: split_beta Cons.IH resolve_collection_resolved_other)
qed

lemma run_all_entries:
  assumes "distinct (map fst cols)"
    and "promise_all (fst (run_all (resolve_collection E cfg ch) cols s)) = Inr entries"
  shows "map fst entries = map fst cols
    \<and> (\<forall>nf \<in> set entries.
          resolved (snd (run_all (resolve_collection E cfg ch) cols s)) (fst nf) = Some (snd nf))"
  using assms
proof (induction cols arbitrary: s entries)
  case Nil
  then show ?case by simp
next
  case (Cons nc rest)
  let ?r = "resolve_collection E cfg ch nc s"
  let ?rest = "run_all (resolve_collection E cfg ch) rest (snd ?r)"
  from Cons.prems(2) have "promise_all (fst ?r # fst ?rest) = Inr entries"
    by (simp add: split_beta)
  then obtain v vs where v: "fst ?r = Inr v" and vs: "promise_all (fst ?rest) = Inr vs"
    and e: "entries = v # vs"
    using promise_all_Cons_Inr by blast
  from Cons.prems(1) have d: "distinct (map fst rest)" and n: "fst nc \<notin> fst ` set rest"
    by simp_all
  from Cons.IH [OF d vs] have ih1: "map fst vs = map fst rest"
    and ih2: "\<forall>nf \<in> set vs. resolved (snd ?rest) (fst nf) = Some (snd nf)"
    by simp_all
  have "fst ?r = Inr (fst v, snd v)" using v by simp
  from resolve_collection_entry [OF this]
  have v1: "fst v = fst nc" and v2: "resolved (snd ?r) (fst nc) = Some (snd v)"
    by auto
  have "resolved (snd ?rest) (fst nc) = Some (snd v)"
    using run_all_resolved_other [OF n] v2 by simp
  with ih1 ih2 v1 e show ?case
    by (simp add: split_beta)
qed





section \<open>Properties of the Build Orchestrator\<close>

lemma collect_single:
  assumes "map_of (collections cfg) name = Some c" and "single c"
  shows "collect cfg (name, files) s =
    (if data_of files = []
     then (Inl (Error (''no data resolved for '' @ [CHR 0x27] @ name @ [CHR 0x27])), s)
     else (Inr (name, first_of (data_of files)),
           emit (if length (data_of files) > 1
                 then Warn (''resolved '' @ string_of_nat (length (data_of files)) @ '' '' @ name
                            @ '', but expected single, using first one'')
                 else Log (''resolved 1 '' @ name)) s))"
  using assms by (simp add: collect_def Let_def)

lemma collect_value:
  "fst (collect cfg nf s) = Inr v \<Longrightarrow> v = entry_value cfg nf"
  by (auto simp: collect_def entry_value_def Let_def split: option.splits if_splits)

lemma collect_nonempty:
  "fst (collect cfg nf s) = Inr v \<Longrightarrow> map_of (collections cfg) (fst nf) = Some c \<Longrightarrow> single c
     \<Longrightarrow> data_of (snd nf) \<noteq> []"
  by (auto simp: collect_def Let_def split: option.splits if_splits)

lemma collect_error:
  "fst (collect cfg nf s) = Inl e \<Longrightarrow> map_of (collections cfg) (fst nf) = Some c
     \<Longrightarrow> e = Error (''no data resolved for '' @ [CHR 0x27] @ fst nf @ [CHR 0x27])
         \<and> single c \<and> data_of (snd nf) = []"
  by (auto simp: collect_def Let_def split: option.splits if_splits)

lemma collect_frame:
  "resolved (snd (collect cfg nf s)) = resolved s"
  "quiet s (snd (collect cfg nf s))"
  by (auto simp: collect_def Let_def quiet_def split: option.splits)

lemma map_throw_Cons_Inr:
  "fst (map_throw f (x # xs) s) = Inr res \<Longrightarrow>
     \<exists>v vs. fst (f x s) = Inr v \<and> fst (map_throw f xs (snd (f x s))) = Inr vs \<and> res = v # vs"
  by (auto split: prod.splits sum.splits)

lemma map_throw_Cons_Inl:
  "fst (map_throw f (x # xs) s) = Inl e \<Longrightarrow>
     fst (f x s) = Inl e \<or> fst (map_throw f xs (snd (f x s))) = Inl e"
  by (auto split: prod.splits sum.splits)

lemma map_throw_collect_Inr:
  "fst (map_throw (collect cfg) entries s) = Inr res \<Longrightarrow>
     res = map (entry_value cfg) entries
     \<and> (\<forall>nf \<in> set entries. \<forall>c. map_of (collections cfg) (fst nf) = Some c \<and> single c
           \<longrightarrow> data_of (snd nf) \<noteq> [])"
proof (induction entries arbitrary: s res)
  case Nil
  then show ?case by simp
next
  case (Cons nf entries)
  from map_throw_Cons_Inr [OF Cons.prems] obtain v vs
    where v: "fst (collect cfg nf s) = Inr v"
      and vs: "fst (map_throw (collect cfg) entries (snd (collect cfg nf s))) = Inr vs"
      and r: "res = v # vs"
    by blast
  from Cons.IH [OF vs] collect_value [OF v] collect_nonempty [OF v] r show ?case
    by auto
qed

lemma map_throw_collect_Inl:
  "fst (map_throw (collect cfg) entries s) = Inl e \<Longrightarrow>
     \<forall>nf \<in> set entries. map_of (collections cfg) (fst nf) \<noteq> None \<Longrightarrow>
     \<exists>nf \<in> set entries. e = Error (''no data resolved for '' @ [CHR 0x27] @ fst nf @ [CHR 0x27])
        \<and> data_of (snd nf) = []"
proof (induction entries arbitrary: s)
  case Nil
  then show ?case by simp
next
  case (Cons nf entries)
  from map_throw_Cons_Inl [OF Cons.prems(1)] show ?case
  proof
    assume "fst (collect cfg nf s) = Inl e"
    moreover from Cons.prems(2) obtain c where "map_of (collections cfg) (fst nf) = Some c"
      by auto
    ultimately show ?thesis using collect_error by fastforce
  next
    assume "fst (map_throw (collect cfg) entries (snd (collect cfg nf s))) = Inl e"
    from Cons.IH [OF this] Cons.prems(2) show ?thesis by auto
  qed
qed

lemma map_throw_collect_frame:
  "resolved (snd (map_throw (collect cfg) entries s)) = resolved s"
  "quiet s (snd (map_throw (collect cfg) entries s))"
proof -
  show "resolved (snd (map_throw (collect cfg) entries s)) = resolved s"
    by (rule map_throw_inv [where R = "\<lambda>s s'. resolved s' = resolved s"])
       (simp_all add: collect_frame)
  show "quiet s (snd (map_throw (collect cfg) entries s))"
    by (rule map_throw_inv [where R = quiet]) (auto intro: collect_frame quiet_trans)
qed

lemma aggregate_entries_frame:
  "resolved (snd (aggregate_entries cfg entries s)) = resolved s"
  "quiet s (snd (aggregate_entries cfg entries s))"
proof -
  show "resolved (snd (aggregate_entries cfg entries s)) = resolved s"
    by (simp add: aggregate_entries_def Let_def map_throw_collect_frame)
  have "quiet s (emit (issues_warning entries) s)"
    by (simp add: quiet_emit issues_warning_def)
  then show "quiet s (snd (aggregate_entries cfg entries s))"
    using map_throw_collect_frame(2) [where s = "emit (issues_warning entries) s" and cfg = cfg
        and entries = entries]
      map_throw_collect_frame(2) [where s = s and cfg = cfg and entries = entries]
    by (auto simp: aggregate_entries_def Let_def intro: quiet_trans)
qed

lemma run_prepare_frame:
  "fst (run_prepare cfg res s) = prepare_verdict cfg res"
  "resolved (snd (run_prepare cfg res s)) = resolved s"
  "quiet s (snd (run_prepare cfg res s))"
  by (auto simp: run_prepare_def prepare_verdict_def Let_def quiet_def split: option.splits sum.splits)

lemma run_complete_frame:
  "resolved (snd (run_complete cfg res s)) = resolved s"
  "assets (snd (run_complete cfg res s)) = assets s"
  "watcher (snd (run_complete cfg res s)) = watcher s"
  "filter is_output (trace (snd (run_complete cfg res s))) = filter is_output (trace s)"
  by (auto simp: run_complete_def split: option.splits)

lemma emit_output_frame:
  "resolved (snd (emit_output E cfg res s)) = resolved s"
  "assets (snd (emit_output E cfg res s)) = assets s"
  "watcher (snd (emit_output E cfg res s)) = watcher s"
  using run_prepare_frame(2,3) [where cfg = cfg and res = res and s = s]
  by (auto simp: emit_output_def split_beta run_complete_frame quiet_def
      split: option.splits sum.splits prod.splits)

lemma emit_output_result:
  "fst (emit_output E cfg res s) = Inr r \<Longrightarrow> r = res"
  by (auto simp: emit_output_def split: option.splits sum.splits prod.splits if_splits)

lemma resolve_entries_unfold:
  "resolve_entries E cfg ch s = (Inr entries, s1) \<Longrightarrow>
     promise_all (fst (run_all (resolve_collection E cfg ch) (collections cfg)
        (emit (Log (''resolving collections from '' @ [CHR 0x27] @ root cfg @ [CHR 0x27])) s)))
       = Inr entries
     \<and> s1 = snd (run_all (resolve_collection E cfg ch) (collections cfg)
        (emit (Log (''resolving collections from '' @ [CHR 0x27] @ root cfg @ [CHR 0x27])) s))"
  by (simp add: resolve_entries_def split_beta)

lemma resolve_entries_names:
  assumes "distinct (map fst (collections cfg))"
    and "resolve_entries E cfg ch s = (Inr entries, s1)"
  shows "map fst entries = map fst (collections cfg)"
    and "\<forall>nf \<in> set entries. resolved s1 (fst nf) = Some (snd nf)"
  using run_all_entries [OF assms(1)] resolve_entries_unfold [OF assms(2)] by auto

lemma resolve_Inr:
  assumes "resolve E cfg ch s = (Inr res, s')"
  shows "\<exists>entries s1. resolve_entries E cfg ch s = (Inr entries, s1)
     \<and> fst (aggregate_entries cfg entries s1) = Inr res
     \<and> s' = snd (emit_output E cfg res (snd (aggregate_entries cfg entries s1)))"
proof -
  obtain r s1 where e: "resolve_entries E cfg ch s = (r, s1)"
    by (cases "resolve_entries E cfg ch s")
  with assms obtain entries where r: "r = Inr entries"
    by (cases r) (simp_all add: resolve_def)
  obtain a s2 where a: "aggregate_entries cfg entries s1 = (a, s2)"
    by (cases "aggregate_entries cfg entries s1")
  with assms e r obtain res0 where a0: "a = Inr res0"
    by (cases a) (simp_all add: resolve_def)
  with assms e r a have o: "emit_output E cfg res0 s2 = (Inr res, s')"
    by (simp add: resolve_def)
  then have "res = res0"
    using emit_output_result [of E cfg res0 s2 res] by simp
  with e r a a0 o show ?thesis by simp
qed

lemma aggregate_entries_Inr:
  "fst (aggregate_entries cfg entries s) = Inr res \<Longrightarrow>
     res = map (entry_value cfg) entries
     \<and> (\<forall>nf \<in> set entries. \<forall>c. map_of (collections cfg) (fst nf) = Some c \<and> single c
           \<longrightarrow> data_of (snd nf) \<noteq> [])"
  using map_throw_collect_Inr [of cfg entries _ res]
  by (auto simp: aggregate_entries_def Let_def split: if_splits)

lemma first_of_Cons: "xs \<noteq> [] \<Longrightarrow> \<exists>ds. xs = first_of xs # ds"
  by (cases xs) (simp_all add: first_of_def)

lemma data_of_flattened: "data_of files = filter truthy (flattened files)"
  by (simp add: data_of_def flattened_def)

lemma resolve_aggregate_entry:
  assumes d: "distinct (map fst (collections cfg))"
    and r: "resolve E cfg changed s = (Inr res, s')"
    and c: "map_of (collections cfg) name = Some c"
  shows "\<exists>fs. resolved s' name = Some fs
    \<and> map_of res name = Some (snd (entry_value cfg (name, fs)))
    \<and> (if single c then data_of fs \<noteq> [] else True)"
proof -
  from resolve_Inr [OF r] obtain entries s1
    where e: "resolve_entries E cfg changed s = (Inr entries, s1)"
      and a: "fst (aggregate_entries cfg entries s1) = Inr res"
      and s': "s' = snd (emit_output E cfg res (snd (aggregate_entries cfg entries s1)))"
    by blast
  note n = resolve_entries_names [OF d e]
  from c have "name \<in> fst ` set (collections cfg)"
    by (metis map_of_eq_None_iff option.distinct(1))
  with n(1) have "name \<in> fst ` set entries"
    by (metis set_map)
  then obtain fs where m: "(name, fs) \<in> set entries" by force
  from n(2) m have 5: "resolved s1 name = Some fs" by force
  have 6: "resolved s' name = Some fs"
    by (simp add: s' emit_output_frame aggregate_entries_frame 5)
  from aggregate_entries_Inr [OF a] m c
  have v: "res = map (entry_value cfg) entries" and ne: "single c \<Longrightarrow> data_of fs \<noteq> []"
    by force+
  have dr: "distinct (map fst res)"
    using d n(1) by (simp add: v entry_value_def o_def)
  have "(name, snd (entry_value cfg (name, fs))) \<in> set res"
    using m by (force simp: v entry_value_def)
  with dr have "map_of res name = Some (snd (entry_value cfg (name, fs)))"
    by simp
  with 6 ne show ?thesis by auto
qed

text \<open>
  C2, as the code has it. Loading an array-shaped file never raises for a record that fails
  validation. The result of the file is the array of the outputs of its records, with
  \<open>undefined\<close> at the index of every record that fails. Every issue of a failing record at
  index \<open>j\<close> is a message of the file whose source locator is \<open>j\<close> joined by dots with the
  field path of the issue. To the flattened and filtered sequence of its collection the file
  contributes exactly its successful outputs that are truthy, in input order: the failing
  records are dropped there, and so is every successful output that is \<open>null\<close>,
  \<open>undefined\<close>, \<open>false\<close>, \<open>0\<close>, \<open>NaN\<close> or the empty string. When all successful
  outputs are truthy (objects and arrays always are), these are exactly the successful
  outputs. Whenever a pass returns an aggregate (it throws instead under the strict check, or
  for a \<open>single\<close> collection left without data), the aggregate of the collection whose
  resolved files hold this file is that sequence for a collection that is not \<open>single\<close>,
  and its first element for a \<open>single\<close> one.
\<close>

theorem array_file_records:
  fixes E :: env and sch :: schema
  defines "good \<equiv> \<lambda>p items. filter truthy (successful_outputs sch (new_file p (VArr items)) items)"
  assumes "read_records E (normalize E p0) = Inr (VArr items)"
    and "changed = None \<or> changed = Some (normalize E p0) \<or> VeliteFile_get (normalize E p0) s = None"
  shows "fst (load E cfg p0 sch changed s) = Inr (file_of sch (normalize E p0) (VArr items))
    \<and> result (file_of sch (normalize E p0) (VArr items))
        = VArr (map (output_of sch (new_file (normalize E p0) (VArr items))) items)
    \<and> messages (file_of sch (normalize E p0) (VArr items))
        = indexed_messages sch (new_file (normalize E p0) (VArr items)) 0 items
    \<and> (\<forall>j is i. j < length items \<and> sch (items ! j) (new_file (normalize E p0) (VArr items)) = Inl is
           \<and> i \<in> set is
         \<longrightarrow> \<lparr>reason = issue_message i,
              source = join_with ''.'' (string_of_nat j # map seg_str (issue_path i))\<rparr>
             \<in> set (messages (file_of sch (normalize E p0) (VArr items))))
    \<and> (\<forall>before after.
          data_of (before @ file_of sch (normalize E p0) (VArr items) # after)
            = data_of before @ good (normalize E p0) items @ data_of after)
    \<and> (\<forall>ch0 s0 res s' name c before after.
          distinct (map fst (collections cfg)) \<and> resolve E cfg ch0 s0 = (Inr res, s')
          \<and> map_of (collections cfg) name = Some c
          \<and> resolved s' name = Some (before @ file_of sch (normalize E p0) (VArr items) # after)
         \<longrightarrow> map_of res name
             = Some (if single c
                     then first_of (data_of before @ good (normalize E p0) items @ data_of after)
                     else VArr (data_of before @ good (normalize E p0) items @ data_of after)))
    \<and> ((\<forall>v \<in> set (successful_outputs sch (new_file (normalize E p0) (VArr items)) items). truthy v)
         \<longrightarrow> good (normalize E p0) items
             = successful_outputs sch (new_file (normalize E p0) (VArr items)) items)"
proof -
  let ?p = "normalize E p0"
  let ?f = "file_of sch ?p (VArr items)"
  have 1: "fst (load E cfg p0 sch changed s) = Inr ?f"
    using assms(2,3) by (simp add: load_miss load_fresh_returns)
  have 2: "result ?f = VArr (map (output_of sch (new_file ?p (VArr items))) items)"
    and 3: "messages ?f = indexed_messages sch (new_file ?p (VArr items)) 0 items"
    by (simp_all add: file_of_def)
  have 4: "\<lparr>reason = issue_message i,
              source = join_with ''.'' (string_of_nat j # map seg_str (issue_path i))\<rparr>
             \<in> set (messages ?f)"
    if "j < length items" "sch (items ! j) (new_file ?p (VArr items)) = Inl is" "i \<in> set is"
    for j "is" i
    using indexed_messages_member [of j items sch "new_file ?p (VArr items)" "is" i] that
    by (simp add: 3 locator_def)
  have 5: "data_of (before @ ?f # after) = data_of before @ good ?p items @ data_of after"
    for before after
    using data_of_append [of before "[?f] @ after"] data_of_append [of "[?f]" after]
    by (simp add: data_of_array_file good_def)
  have 6: "map_of res name
             = Some (if single c
                     then first_of (data_of before @ good ?p items @ data_of after)
                     else VArr (data_of before @ good ?p items @ data_of after))"
    if "distinct (map fst (collections cfg))" "resolve E cfg ch0 s0 = (Inr res, s')"
      "map_of (collections cfg) name = Some c" "resolved s' name = Some (before @ ?f # after)"
    for ch0 s0 res s' name c before after
    using resolve_aggregate_entry [OF that(1,2,3)] that(3,4)
    by (auto simp: entry_value_def 5)
  have 7: "good ?p items = successful_outputs sch (new_file ?p (VArr items)) items"
    if "\<forall>v \<in> set (successful_outputs sch (new_file ?p (VArr items)) items). truthy v"
    using that by (simp add: good_def)
  show ?thesis
    using 1 2 3 4 5 6 7 by blast
qed

theorem array_file_records_witness:
  "fst (load env0 (config_of [posts] False) ''/c/posts.json'' sch_post None world0)
     = Inr (file_of sch_post ''/c/posts.json'' (VArr [post ''a'', VObj [], post ''b'']))
   \<and> messages (file_of sch_post ''/c/posts.json'' (VArr [post ''a'', VObj [], post ''b'']))
     = [\<lparr>reason = ''Required'', source = ''1.title''\<rparr>]
   \<and> data_of [file_of sch_post ''/c/posts.json'' (VArr [post ''a'', VObj [], post ''b''])]
     = [post ''a'', post ''b'']
   \<and> map_of (case fst (resolve env0 (config_of [posts] False) None world0) of
               Inl e \<Rightarrow> [] | Inr res \<Rightarrow> res) ''posts''
     = Some (VArr [post ''a'', post ''b''])"
proof -
  let ?items = "[post ''a'', VObj [], post ''b'']"
  let ?cfg = "config_of [posts] False"
  have n: "normalize env0 ''/c/posts.json'' = ''/c/posts.json''"
    by (simp add: env0_def)
  have r: "read_records env0 (normalize env0 ''/c/posts.json'') = Inr (VArr ?items)"
    by (simp add: env0_def tree_def)
  note T = array_file_records [of env0 "''/c/posts.json''" ?items None world0 ?cfg sch_post,
      OF r, unfolded n]
  have m: "indexed_messages sch_post (new_file ''/c/posts.json'' (VArr ?items)) 0 ?items
      = [\<lparr>reason = ''Required'', source = ''1.title''\<rparr>]"
    by code_simp
  have g: "filter truthy (successful_outputs sch_post (new_file ''/c/posts.json'' (VArr ?items)) ?items)
      = [post ''a'', post ''b'']"
    by code_simp
  from T have "data_of ([] @ file_of sch_post ''/c/posts.json'' (VArr ?items) # [])
      = data_of [] @ [post ''a'', post ''b''] @ data_of []"
    unfolding g by blast
  then have d: "data_of [file_of sch_post ''/c/posts.json'' (VArr ?items)] = [post ''a'', post ''b'']"
    by (simp add: data_of_def)
  obtain res s' where p: "resolve env0 ?cfg None world0 = (res, s')"
    by (cases "resolve env0 ?cfg None world0")
  have "(case fst (resolve env0 ?cfg None world0) of Inl e \<Rightarrow> False | Inr res \<Rightarrow> True)
      \<and> resolved (snd (resolve env0 ?cfg None world0)) ''posts''
        = Some ([] @ file_of sch_post ''/c/posts.json'' (VArr ?items) # [])"
    by code_simp
  with p obtain agg where a: "resolve env0 ?cfg None world0 = (Inr agg, s')"
    and f: "resolved s' ''posts'' = Some ([] @ file_of sch_post ''/c/posts.json'' (VArr ?items) # [])"
    by (cases res) auto
  have c: "distinct (map fst (collections ?cfg))"
    "map_of (collections ?cfg) ''posts'' = Some (snd posts)" "\<not> single (snd posts)"
    by (simp_all add: config_of_def posts_def)
  from T have T6: "map_of res name
      = Some (if single c
              then first_of (data_of before @ [post ''a'', post ''b''] @ data_of after)
              else VArr (data_of before @ [post ''a'', post ''b''] @ data_of after))"
    if "distinct (map fst (collections ?cfg))" "resolve env0 ?cfg ch0 s0 = (Inr res, s')"
      "map_of (collections ?cfg) name = Some c"
      "resolved s' name = Some (before @ file_of sch_post ''/c/posts.json'' (VArr ?items) # after)"
    for ch0 s0 res s' name c before after
    unfolding g using that by blast
  from T6 [OF c(1) a c(2) f] c(3) have "map_of agg ''posts''
      = Some (VArr (data_of [] @ [post ''a'', post ''b''] @ data_of []))"
    by simp
  then have q: "map_of (case fst (resolve env0 ?cfg None world0) of Inl e \<Rightarrow> [] | Inr res \<Rightarrow> res)
      ''posts'' = Some (VArr [post ''a'', post ''b''])"
    by (simp add: a data_of_def)
  from T m d q show ?thesis by simp
qed

text \<open>
  The file \<open>nums.json\<close> is the array \<open>[0, 5]\<close>, and both records validate against the schema
  of numbers; the aggregate of its collection holds \<open>5\<close> alone.
\<close>

theorem array_file_falsy_counterexample:
  "read_records env0 ''/c/nums.json'' = Inr (VArr [VNum 0, VNum 5])
   \<and> successful_outputs sch_num (new_file ''/c/nums.json'' (VArr [VNum 0, VNum 5])) [VNum 0, VNum 5]
       = [VNum 0, VNum 5]
   \<and> fst (resolve env0 (config_of [nums] False) None world0) = Inr [(''nums'', VArr [VNum 5])]"
  by code_simp

text \<open>
  C4, as the code has it. For a collection declared \<open>single\<close>, the sequence that counts is
  \<open>files.flatMap(file => file.result).filter(Boolean)\<close>: the flattened results of its files
  without the falsy ones, so without the \<open>undefined\<close> of a failed record and also without a
  validated output that is \<open>null\<close>, \<open>undefined\<close>, \<open>false\<close>, \<open>0\<close>, \<open>NaN\<close> or the
  empty string. The callback that builds the aggregate throws
  \<open>no data resolved for 'name'\<close> when nothing truthy is left; otherwise it returns the first
  truthy element of the flattened results, with a log line when that is the only truthy
  element and a warning, no error, when there are more. For the whole pass: when \<open>resolve\<close>
  returns, the aggregate maps the name to the first truthy element of the flattened results
  of the files that \<open>resolved\<close> holds for the collection; and when nothing truthy is left
  for the collection the pass throws, the strict-mode error if that check fires first, a
  \<open>no data resolved\<close> error otherwise.
\<close>

theorem single_collection_first_record:
  assumes "map_of (collections cfg) name = Some c" and "single c"
  shows "(filter truthy (flattened files) = [] \<longrightarrow>
            collect cfg (name, files) s
              = (Inl (Error (''no data resolved for '' @ [CHR 0x27] @ name @ [CHR 0x27])), s))
    \<and> (\<forall>d. filter truthy (flattened files) = [d] \<longrightarrow>
            collect cfg (name, files) s = (Inr (name, d), emit (Log (''resolved 1 '' @ name)) s))
    \<and> (\<forall>d d' ds. filter truthy (flattened files) = d # d' # ds \<longrightarrow>
            collect cfg (name, files) s
              = (Inr (name, d),
                 emit (Warn (''resolved '' @ string_of_nat (length (d # d' # ds)) @ '' '' @ name
                             @ '', but expected single, using first one'')) s))
    \<and> (\<forall>res s'. distinct (map fst (collections cfg)) \<and> resolve E cfg changed s = (Inr res, s')
          \<longrightarrow> (\<exists>fs d ds. resolved s' name = Some fs \<and> filter truthy (flattened fs) = d # ds
                 \<and> map_of res name = Some d))
    \<and> (\<forall>entries s1. distinct (map fst (collections cfg))
            \<and> resolve_entries E cfg changed s = (Inr entries, s1)
            \<and> (name, files) \<in> set entries \<and> filter truthy (flattened files) = []
          \<longrightarrow> (\<exists>e s'. resolve E cfg changed s = (Inl e, s')
                 \<and> (e = Error ''Schema validation failed.''
                    \<or> (\<exists>n. e = Error (''no data resolved for '' @ [CHR 0x27] @ n @ [CHR 0x27])))))
    \<and> (\<forall>d ds. filter truthy (flattened files) = d # ds
          \<longrightarrow> (\<exists>pre post. flattened files = pre @ d # post
                 \<and> list_all (\<lambda>v. \<not> truthy v) pre \<and> truthy d))"
proof -
  note c = collect_single [OF assms, of files s]
  have 1: "data_of files = [] \<longrightarrow>
            collect cfg (name, files) s
              = (Inl (Error (''no data resolved for '' @ [CHR 0x27] @ name @ [CHR 0x27])), s)"
    by (simp add: c)
  have 2: "\<forall>d. data_of files = [d] \<longrightarrow>
            collect cfg (name, files) s = (Inr (name, d), emit (Log (''resolved 1 '' @ name)) s)"
    by (simp add: c first_of_def)
  have 3: "\<forall>d d' ds. data_of files = d # d' # ds \<longrightarrow>
            collect cfg (name, files) s
              = (Inr (name, d),
                 emit (Warn (''resolved '' @ string_of_nat (length (d # d' # ds)) @ '' '' @ name
                             @ '', but expected single, using first one'')) s)"
    by (simp add: c first_of_def)
  have 4: "\<exists>fs d ds. resolved s' name = Some fs \<and> data_of fs = d # ds \<and> map_of res name = Some d"
    if d: "distinct (map fst (collections cfg))" and r: "resolve E cfg changed s = (Inr res, s')"
    for res s'
  proof -
    from resolve_aggregate_entry [OF d r assms(1)] assms(2) obtain fs
      where fs: "resolved s' name = Some fs" "map_of res name = Some (first_of (data_of fs))"
        "data_of fs \<noteq> []"
      by (auto simp: entry_value_def assms(1))
    from first_of_Cons [OF fs(3)] obtain ds where "data_of fs = first_of (data_of fs) # ds" ..
    with fs show ?thesis by blast
  qed
  have 5: "\<exists>e s'. resolve E cfg changed s = (Inl e, s')
                 \<and> (e = Error ''Schema validation failed.''
                    \<or> (\<exists>n. e = Error (''no data resolved for '' @ [CHR 0x27] @ n @ [CHR 0x27])))"
    if d: "distinct (map fst (collections cfg))"
      and e: "resolve_entries E cfg changed s = (Inr entries, s1)"
      and m: "(name, files) \<in> set entries" and em: "data_of files = []"
    for entries s1
  proof -
    note n = resolve_entries_names [OF d e]
    have dom: "\<forall>nf \<in> set entries. map_of (collections cfg) (fst nf) \<noteq> None"
    proof
      fix nf assume "nf \<in> set entries"
      then have "fst nf \<in> fst ` set (collections cfg)"
        using n(1) by (metis image_eqI set_map)
      then show "map_of (collections cfg) (fst nf) \<noteq> None"
        by (simp add: map_of_eq_None_iff)
    qed
    obtain a s2 where a: "aggregate_entries cfg entries s1 = (a, s2)"
      by (cases "aggregate_entries cfg entries s1")
    have "\<exists>err. a = Inl err \<and> (err = Error ''Schema validation failed.''
        \<or> (\<exists>n. err = Error (''no data resolved for '' @ [CHR 0x27] @ n @ [CHR 0x27])))"
    proof (cases a)
      case (Inr res)
      with a aggregate_entries_Inr [of cfg entries s1 res] m em assms show ?thesis
        by force
    next
      case (Inl err)
      show ?thesis
      proof (cases "length (reporter (concat (map snd entries))) > 0 \<and> strict cfg")
        case True
        with a Inl show ?thesis by (auto simp: aggregate_entries_def Let_def)
      next
        case False
        with a Inl have "\<exists>s0. fst (map_throw (collect cfg) entries s0) = Inl err"
          by (auto simp: aggregate_entries_def Let_def split: if_splits intro: exI [of _ s1]
              exI [of _ "emit (issues_warning entries) s1"])
        then obtain s0 where "fst (map_throw (collect cfg) entries s0) = Inl err" ..
        from map_throw_collect_Inl [OF this dom] Inl show ?thesis by blast
      qed
    qed
    with e a show ?thesis by (auto simp: resolve_def)
  qed
  have 6: "\<exists>pre post. flattened files = pre @ d # post \<and> list_all (\<lambda>v. \<not> truthy v) pre \<and> truthy d"
    if "data_of files = d # ds" for d ds
  proof -
    from that have "filter truthy (flattened files) = d # ds"
      by (simp add: data_of_flattened)
    then obtain pre post where "flattened files = pre @ d # post" "\<forall>v \<in> set pre. \<not> truthy v"
      "truthy d"
      by (auto simp: filter_eq_Cons_iff)
    then show ?thesis
      by (auto simp: list_all_iff)
  qed
  from 1 2 3 4 5 6 show ?thesis
    unfolding data_of_flattened [symmetric] by blast
qed

theorem single_collection_first_record_witness:
  "collect (config_of [posts, about] False) (''about'', []) world0
     = (Inl (Error (''no data resolved for '' @ [CHR 0x27] @ ''about'' @ [CHR 0x27])), world0)
   \<and> collect (config_of [posts, about] False)
        (''about'', [file_of sch_post ''/c/about.json'' (post ''about'')]) world0
     = (Inr (''about'', post ''about''), emit (Log ''resolved 1 about'') world0)
   \<and> (\<exists>fs d ds. resolved (snd (resolve env0 (config_of [posts, about] False) None world0)) ''about''
          = Some fs
        \<and> filter truthy (flattened fs) = d # ds
        \<and> fst (resolve env0 (config_of [posts, about] False) None world0)
          = Inr [(''posts'', VArr [post ''a'', post ''b'']), (''about'', d)])"
proof -
  let ?cfg = "config_of [posts, about] False"
  have h1: "map_of (collections ?cfg) ''about'' = Some (snd about)"
    by (simp add: config_of_def posts_def about_def)
  have h2: "single (snd about)"
    by (simp add: about_def)
  have d0: "filter truthy (flattened []) = []"
    by (simp add: flattened_def)
  have d1: "filter truthy (flattened [file_of sch_post ''/c/about.json'' (post ''about'')])
      = [post ''about'']"
    by code_simp
  note T0 = single_collection_first_record [OF h1 h2, where files = "[]" and s = world0
      and E = env0 and changed = None]
  note T1 = single_collection_first_record [OF h1 h2,
      where files = "[file_of sch_post ''/c/about.json'' (post ''about'')]" and s = world0
      and E = env0 and changed = None]
  obtain r s' where r: "resolve env0 ?cfg None world0 = (r, s')"
    by (cases "resolve env0 ?cfg None world0")
  have f: "fst (resolve env0 ?cfg None world0)
      = Inr [(''posts'', VArr [post ''a'', post ''b'']), (''about'', post ''about'')]"
    by code_simp
  have dist: "distinct (map fst (collections ?cfg))"
    by (simp add: config_of_def posts_def about_def)
  from T0 r f dist obtain fs d ds where "resolved s' ''about'' = Some fs" "filter truthy (flattened fs) = d # ds"
    "map_of [(''posts'', VArr [post ''a'', post ''b'']), (''about'', post ''about'')] ''about'' = Some d"
    by auto
  then have 3: "\<exists>fs d ds. resolved (snd (resolve env0 ?cfg None world0)) ''about'' = Some fs
        \<and> filter truthy (flattened fs) = d # ds
        \<and> fst (resolve env0 ?cfg None world0)
          = Inr [(''posts'', VArr [post ''a'', post ''b'']), (''about'', d)]"
    using r f by auto
  from T0 d0 have 1: "collect ?cfg (''about'', []) world0
     = (Inl (Error (''no data resolved for '' @ [CHR 0x27] @ ''about'' @ [CHR 0x27])), world0)"
    by simp
  from T1 d1 have 2: "collect ?cfg (''about'', [file_of sch_post ''/c/about.json'' (post ''about'')]) world0
     = (Inr (''about'', post ''about''), emit (Log ''resolved 1 about'') world0)"
    by simp
  from 1 2 3 show ?thesis by blast
qed

text \<open>
  Both records of \<open>[0, 5]\<close> validate: the aggregate of the \<open>single\<close> collection is \<open>5\<close>,
  not the first validated output \<open>0\<close>, and no warning is written. The lone record \<open>0\<close>
  validates as well, and the pass throws \<open>no data resolved\<close>. And where nothing is left
  for the collection \<open>site\<close> and the config is strict, the error of the pass is that of the
  strict check.
\<close>

theorem single_falsy_counterexample:
  "successful_outputs sch_num (new_file ''/c/nums.json'' (VArr [VNum 0, VNum 5])) [VNum 0, VNum 5]
     = [VNum 0, VNum 5]
   \<and> fst (resolve env0 (config_of [first_num] False) None world0) = Inr [(''first'', VNum 5)]
   \<and> filter is_warning (trace (snd (resolve env0 (config_of [first_num] False) None world0))) = []
   \<and> sch_num (VNum 0) (new_file ''/c/zero.json'' (VNum 0)) = Inr (VNum 0)
   \<and> fst (resolve env0 (config_of [zero] False) None world0)
     = Inl (Error (''no data resolved for '' @ [CHR 0x27] @ ''zero'' @ [CHR 0x27]))
   \<and> filter truthy (flattened [file_of sch_post ''/c/site.json'' (VObj [(''name'', VStr ''x'')])])
     = []
   \<and> fst (resolve env0 (config_of [site] True) None world0)
     = Inl (Error ''Schema validation failed.'')"
  by code_simp

lemma extends_refl [simp]: "extends s s"
  by (simp add: extends_def)

lemma extends_trans: "extends a b \<Longrightarrow> extends b c \<Longrightarrow> extends a c"
  by (auto simp: extends_def)

lemma extends_emit [simp]: "extends s (emit e s)"
  by (simp add: extends_def)

lemma extends_member: "extends s s' \<Longrightarrow> e \<in> set (trace s) \<Longrightarrow> e \<in> set (trace s')"
  by (auto simp: extends_def)

lemma collect_extends: "extends s (snd (collect cfg nf s))"
  by (auto simp: collect_def Let_def split: option.splits)

lemma map_throw_collect_extends: "extends s (snd (map_throw (collect cfg) entries s))"
  by (rule map_throw_inv [where R = extends]) (auto intro: collect_extends extends_trans)

lemma run_prepare_extends: "extends s (snd (run_prepare cfg res s))"
  by (auto simp: run_prepare_def extends_def split: option.splits sum.splits)

lemma run_complete_extends: "extends s (snd (run_complete cfg res s))"
  by (auto simp: run_complete_def extends_def split: option.splits)

lemma emit_output_extends: "extends s (snd (emit_output E cfg res s))"
proof -
  have p: "extends s (snd (run_prepare cfg res s))" by (rule run_prepare_extends)
  have c: "extends s0 (snd (run_complete cfg res (emit e s0)))" for e s0
    using extends_emit run_complete_extends by (rule extends_trans)
  have 1: "extends s (emit e (snd (run_prepare cfg res s)))" for e
    using p extends_emit by (rule extends_trans)
  have 2: "extends s (emit e' (snd (run_complete cfg res (emit e2 (emit e (snd (run_prepare cfg res s)))))))"
    for e e2 e'
    using 1 [of e] c [of "emit e (snd (run_prepare cfg res s))" e2]
    by (meson extends_emit extends_trans)
  have 3: "extends s (snd (run_complete cfg res (emit e2 (emit e (snd (run_prepare cfg res s))))))"
    for e e2
    using 1 [of e] c [of "emit e (snd (run_prepare cfg res s))" e2]
    by (meson extends_emit extends_trans)
  have 4: "extends s (emit e2 (emit e (snd (run_prepare cfg res s))))" for e e2
    using 1 [of e] by (meson extends_emit extends_trans)
  show ?thesis
    using p 1 2 3 4
    by (auto simp: emit_output_def split_beta split: sum.splits option.splits)
qed

lemma resolve_entries_quiet: "quiet s (snd (resolve_entries E cfg ch s))"
proof -
  let ?s0 = "emit (Log (''resolving collections from '' @ [CHR 0x27] @ root cfg @ [CHR 0x27])) s"
  have "quiet ?s0 (snd (run_all (resolve_collection E cfg ch) (collections cfg) ?s0))"
    by (rule run_all_inv [where R = quiet]) (auto intro: resolve_collection_quiet quiet_trans)
  moreover have "quiet s ?s0" by (simp add: quiet_emit)
  ultimately show ?thesis
    by (auto simp: resolve_entries_def split_beta intro: quiet_trans)
qed

lemma report_line_nonempty [simp]: "report_line f m \<noteq> []"
  by (simp add: report_line_def)

lemma reporter_nonempty: "reporter files \<noteq> [] \<longleftrightarrow> (\<exists>f \<in> set files. messages f \<noteq> [])"
proof -
  have "concat (map (report_line f) ms) = [] \<longleftrightarrow> ms = []" for f ms
    by (cases ms) simp_all
  then show ?thesis
    by (simp add: reporter_def)
qed

lemma emit_output_outputs:
  "filter is_output (trace (snd (emit_output E cfg res s))) =
     filter is_output (trace s) @
       (case prepare_verdict cfg res of
          Inl e \<Rightarrow> []
        | Inr shouldOutput \<Rightarrow>
            if shouldOutput
            then OutputData (output_data cfg) res
                 # (if outputData E (output_data cfg) res = None
                    then [OutputAssets (output_assets cfg) (assets s)] else [])
            else [OutputAssets (output_assets cfg) (assets s)])"
proof -
  obtain v s1 where p: "run_prepare cfg res s = (v, s1)"
    by (cases "run_prepare cfg res s")
  from run_prepare_frame [where cfg = cfg and res = res and s = s] p
  have v: "v = prepare_verdict cfg res" and q: "quiet s s1" by simp_all
  from q have a: "assets s1 = assets s" and t: "filter is_output (trace s1) = filter is_output (trace s)"
    by (simp_all add: quiet_def)
  show ?thesis
    unfolding v [symmetric]
    by (cases v) (auto simp: emit_output_def p a t split_beta run_complete_frame split: option.splits)
qed

lemma resolve_reaches_output:
  assumes "resolve_entries E cfg changed s = (Inr entries, s1)"
    and "aggregate_entries cfg entries s1 = (Inr res, s2)"
  shows "resolve E cfg changed s = emit_output E cfg res s2"
    and "assets s2 = assets s"
    and "filter is_output (trace s2) = filter is_output (trace s)"
    and "extends s1 s2"
proof -
  show "resolve E cfg changed s = emit_output E cfg res s2"
    using assms by (simp add: resolve_def)
  have "quiet s s1"
    using resolve_entries_quiet [of s E cfg changed] assms(1) by simp
  moreover have "quiet s1 s2"
    using aggregate_entries_frame(2) [where cfg = cfg and entries = entries and s = s1] assms(2)
    by simp
  ultimately have "quiet s s2" by (rule quiet_trans)
  then show "assets s2 = assets s" and "filter is_output (trace s2) = filter is_output (trace s)"
    by (simp_all add: quiet_def)
  have "extends s1 (snd (map_throw (collect cfg) entries (emit (issues_warning entries) s1)))"
    using extends_emit map_throw_collect_extends by (rule extends_trans)
  then have "extends s1 (snd (aggregate_entries cfg entries s1))"
    using map_throw_collect_extends [of s1 cfg entries]
    by (auto simp: aggregate_entries_def Let_def)
  then show "extends s1 s2" using assms(2) by simp
qed

lemma emit_output_prepare:
  "prepare cfg = Some hook \<Longrightarrow> Prepare res \<in> set (trace (snd (emit_output E cfg res s)))"
proof -
  assume h: "prepare cfg = Some hook"
  have 1: "Prepare res \<in> set (trace (snd (run_prepare cfg res s)))"
    using h by (auto simp: run_prepare_def Let_def split: sum.splits)
  have 2: "Prepare res \<in> set (trace (snd (run_complete cfg res (emit e (emit e' s0)))))"
    if "Prepare res \<in> set (trace s0)" for s0 e e'
    using that by (auto simp: run_complete_def split: option.splits)
  from 1 2 [OF 1] show ?thesis
    by (auto simp: emit_output_def split_beta split: sum.splits option.splits)
qed

text \<open>
  C3, as the code has it. In a pass whose files carry at least one diagnostic message the
  report is written as a warning, whatever follows. When the config is strict the pass
  throws \<open>Schema validation failed.\<close> right after the warning: no output has been emitted.
  When it is not strict the pass goes on to build the aggregate from the records that
  survive; the data output of that aggregate is emitted provided the aggregate can be built
  (no \<open>single\<close> collection is left without data, which throws) and the \<open>prepare\<close> hook, if
  there is one, neither throws nor vetoes.
\<close>

theorem diagnostics_and_strict:
  assumes "resolve_entries E cfg changed s = (Inr entries, s1)"
    and "\<exists>f \<in> set (concat (map snd entries)). messages f \<noteq> []"
  shows "issues_warning entries \<in> set (trace (snd (resolve E cfg changed s)))
    \<and> (strict cfg \<longrightarrow>
          resolve E cfg changed s
            = (Inl (Error ''Schema validation failed.''), emit (issues_warning entries) s1)
          \<and> filter is_output (trace (snd (resolve E cfg changed s))) = filter is_output (trace s))
    \<and> (\<not> strict cfg \<longrightarrow>
          aggregate_entries cfg entries s1
            = map_throw (collect cfg) entries (emit (issues_warning entries) s1)
          \<and> (\<forall>res s2. aggregate_entries cfg entries s1 = (Inr res, s2)
                 \<and> prepare_verdict cfg res = Inr True
               \<longrightarrow> res = map (entry_value cfg) entries
                   \<and> OutputData (output_data cfg) res
                       \<in> set (trace (snd (resolve E cfg changed s)))))"
proof -
  have rep: "length (reporter (concat (map snd entries))) > 0"
    using assms(2) reporter_nonempty [of "concat (map snd entries)"] by simp
  have q: "filter is_output (trace s1) = filter is_output (trace s)"
    using resolve_entries_quiet [of s E cfg changed] assms(1) by (simp add: quiet_def)
  have strict: "resolve E cfg changed s
            = (Inl (Error ''Schema validation failed.''), emit (issues_warning entries) s1)
          \<and> filter is_output (trace (snd (resolve E cfg changed s))) = filter is_output (trace s)"
    if "strict cfg"
    using that rep assms(1) q
    by (simp add: resolve_def aggregate_entries_def Let_def issues_warning_def)
  have agg: "aggregate_entries cfg entries s1
            = map_throw (collect cfg) entries (emit (issues_warning entries) s1)"
    if "\<not> strict cfg"
    using that rep by (simp add: aggregate_entries_def Let_def)
  have w1: "issues_warning entries \<in> set (trace (snd (aggregate_entries cfg entries s1)))"
  proof (cases "strict cfg")
    case True
    with rep show ?thesis by (simp add: aggregate_entries_def Let_def)
  next
    case False
    have "issues_warning entries \<in> set (trace (emit (issues_warning entries) s1))" by simp
    with map_throw_collect_extends [of "emit (issues_warning entries) s1" cfg entries]
    show ?thesis unfolding agg [OF False] by (rule extends_member)
  qed
  have w: "issues_warning entries \<in> set (trace (snd (resolve E cfg changed s)))"
  proof (cases "aggregate_entries cfg entries s1")
    case (Pair a s2)
    show ?thesis
    proof (cases a)
      case (Inl e)
      with Pair assms(1) w1 show ?thesis by (simp add: resolve_def)
    next
      case (Inr res)
      with Pair assms(1) have "resolve E cfg changed s = emit_output E cfg res s2"
        by (simp add: resolve_def)
      moreover have "issues_warning entries \<in> set (trace s2)" using w1 Pair by simp
      ultimately show ?thesis
        using emit_output_extends [of s2 E cfg res] by (simp add: extends_member)
    qed
  qed
  have out: "res = map (entry_value cfg) entries
      \<and> OutputData (output_data cfg) res \<in> set (trace (snd (resolve E cfg changed s)))"
    if a: "aggregate_entries cfg entries s1 = (Inr res, s2)"
      and p: "prepare_verdict cfg res = Inr True" for res s2
  proof -
    note r = resolve_reaches_output [OF assms(1) a]
    have "OutputData (output_data cfg) res
        \<in> set (filter is_output (trace (snd (resolve E cfg changed s))))"
      by (simp add: r(1) emit_output_outputs p)
    moreover have "res = map (entry_value cfg) entries"
      using aggregate_entries_Inr [of cfg entries s1 res] a by simp
    ultimately show ?thesis by simp
  qed
  from w strict agg out show ?thesis by blast
qed

theorem diagnostics_and_strict_witness:
  "resolve env0 (config_of [posts] True) None world0
     = (Inl (Error ''Schema validation failed.''),
        emit (issues_warning [(''posts'', [file_of sch_post ''/c/posts.json''
                                            (VArr [post ''a'', VObj [], post ''b''])])])
          (snd (resolve_entries env0 (config_of [posts] True) None world0)))
   \<and> filter is_output (trace (snd (resolve env0 (config_of [posts] True) None world0))) = []
   \<and> OutputData ''.velite'' [(''posts'', VArr [post ''a'', post ''b''])]
       \<in> set (trace (snd (resolve env0 (config_of [posts] False) None world0)))"
proof -
  let ?f = "file_of sch_post ''/c/posts.json'' (VArr [post ''a'', VObj [], post ''b''])"
  let ?entries = "[(''posts'', [?f])]"
  let ?res = "[(''posts'', VArr [post ''a'', post ''b''])]"
  have m: "\<exists>f \<in> set (concat (map snd ?entries)). messages f \<noteq> []"
    by (simp add: file_of_def indexed_messages_def record_messages_def sch_post_def post_def)
  have 1: "resolve env0 (config_of [posts] True) None world0
     = (Inl (Error ''Schema validation failed.''),
        emit (issues_warning ?entries) (snd (resolve_entries env0 (config_of [posts] True) None world0)))
   \<and> filter is_output (trace (snd (resolve env0 (config_of [posts] True) None world0))) = []"
  proof -
    let ?cfg = "config_of [posts] True"
    let ?e = "resolve_entries env0 ?cfg None world0"
    have "fst ?e = Inr ?entries" by code_simp
    then obtain s1 where e: "?e = (Inr ?entries, s1)" by (cases ?e) auto
    have s: "strict ?cfg" by (simp add: config_of_def)
    have w: "trace world0 = []"
      by (simp add: world0_def)
    from diagnostics_and_strict [OF e m] s
    have A: "resolve env0 ?cfg None world0
        = (Inl (Error ''Schema validation failed.''), emit (issues_warning ?entries) s1)"
      and B: "filter is_output (trace (snd (resolve env0 ?cfg None world0)))
        = filter is_output (trace world0)"
      by blast+
    from A e have A': "resolve env0 ?cfg None world0
        = (Inl (Error ''Schema validation failed.''), emit (issues_warning ?entries) (snd ?e))"
      by simp
    from B w have B': "filter is_output (trace (snd (resolve env0 ?cfg None world0))) = []"
      by simp
    from A' B' show ?thesis by (rule conjI)
  qed
  have 2: "OutputData ''.velite'' ?res
       \<in> set (trace (snd (resolve env0 (config_of [posts] False) None world0)))"
  proof -
    let ?cfg = "config_of [posts] False"
    let ?e = "resolve_entries env0 ?cfg None world0"
    have "fst ?e = Inr ?entries \<and> fst (aggregate_entries ?cfg ?entries (snd ?e)) = Inr ?res"
      by code_simp
    then obtain s1 s2 where e: "?e = (Inr ?entries, s1)"
      and a: "aggregate_entries ?cfg ?entries s1 = (Inr ?res, s2)"
      by (cases ?e; cases "aggregate_entries ?cfg ?entries (snd ?e)") auto
    have s: "\<not> strict ?cfg" and p: "prepare_verdict ?cfg ?res = Inr True"
      and o: "output_data ?cfg = ''.velite''"
      by (simp_all add: config_of_def prepare_verdict_def)
    from diagnostics_and_strict [OF e m] s a p show ?thesis
      unfolding o by blast
  qed
  from 1 2 show ?thesis by blast
qed

text \<open>
  The only file of the \<open>single\<close> collection \<open>site\<close> fails validation: there is a message,
  the config is not strict, and the pass throws without any output.
\<close>

theorem diagnostics_not_strict_counterexample:
  "fst (resolve_entries env0 (config_of [site] False) None world0)
     = Inr [(''site'', [file_of sch_post ''/c/site.json'' (VObj [(''name'', VStr ''x'')])])]
   \<and> messages (file_of sch_post ''/c/site.json'' (VObj [(''name'', VStr ''x'')]))
     = [\<lparr>reason = ''Required'', source = ''title''\<rparr>]
   \<and> strict (config_of [site] False) = False
   \<and> fst (resolve env0 (config_of [site] False) None world0)
     = Inl (Error (''no data resolved for '' @ [CHR 0x27] @ ''site'' @ [CHR 0x27]))
   \<and> filter is_output (trace (snd (resolve env0 (config_of [site] False) None world0))) = []"
  by code_simp

text \<open>
  C7. In a pass that reaches the \<open>prepare\<close> hook with the aggregate \<open>res\<close>, and whose hook
  returns, the hook is called with \<open>res\<close> and its return value decides the data output: on
  \<open>false\<close> the output events of the pass are the copy of the assets alone, without the data
  output; on \<open>true\<close>, and on no return value, they are the data output of \<open>res\<close> followed
  by the copy of the assets (which is reached unless writing the data throws).
\<close>

theorem prepare_hook_decides_output:
  assumes "resolve_entries E cfg changed s = (Inr entries, s1)"
    and "aggregate_entries cfg entries s1 = (Inr res, s2)"
    and "prepare cfg = Some hook" and "hook res = Inr r"
  shows "Prepare res \<in> set (trace (snd (resolve E cfg changed s)))
    \<and> (r = Some False \<longrightarrow>
          filter is_output (trace (snd (resolve E cfg changed s)))
            = filter is_output (trace s) @ [OutputAssets (output_assets cfg) (assets s)])
    \<and> (r = None \<or> r = Some True \<longrightarrow>
          filter is_output (trace (snd (resolve E cfg changed s)))
            = filter is_output (trace s)
              @ OutputData (output_data cfg) res
                # (if outputData E (output_data cfg) res = None
                   then [OutputAssets (output_assets cfg) (assets s)] else []))"
proof -
  note r = resolve_reaches_output [OF assms(1,2)]
  have v: "prepare_verdict cfg res = Inr (case r of None \<Rightarrow> True | Some b \<Rightarrow> b)"
    using assms(3,4) by (simp add: prepare_verdict_def)
  show ?thesis
    using emit_output_prepare [OF assms(3), of res E s2]
    by (auto simp: r(1-3) emit_output_outputs v)
qed

theorem prepare_hook_decides_output_witness:
  "filter is_output (trace (snd (resolve env0 (config_hook (Some False)) None world0)))
     = [OutputAssets ''public'' []]
   \<and> filter is_output (trace (snd (resolve env0 (config_hook None) None world0)))
     = [OutputData ''.velite'' [(''posts'', VArr [post ''a'', post ''b''])],
        OutputAssets ''public'' []]"
proof -
  let ?res = "[(''posts'', VArr [post ''a'', post ''b''])]"
  have 1: "filter is_output (trace (snd (resolve env0 (config_hook (Some False)) None world0)))
     = [OutputAssets ''public'' []]"
  proof -
    let ?cfg = "config_hook (Some False)"
    let ?e = "resolve_entries env0 ?cfg None world0"
    have "fst (aggregate_entries ?cfg (projr (fst ?e)) (snd ?e)) = Inr ?res
        \<and> (case fst ?e of Inl err \<Rightarrow> False | Inr es \<Rightarrow> True)"
      by code_simp
    then obtain entries s1 s2 where e: "?e = (Inr entries, s1)"
      and a: "aggregate_entries ?cfg entries s1 = (Inr ?res, s2)"
      by (cases ?e; cases "fst ?e"; cases "aggregate_entries ?cfg (projr (fst ?e)) (snd ?e)") auto
    have p: "prepare ?cfg = Some (\<lambda>res. Inr (Some False))"
      by (simp add: config_hook_def)
    have w: "trace world0 = []" "assets world0 = []"
      by (simp_all add: world0_def)
    from prepare_hook_decides_output [OF e a p refl] show ?thesis
      by (simp add: w config_hook_def config_of_def)
  qed
  have 2: "filter is_output (trace (snd (resolve env0 (config_hook None) None world0)))
     = [OutputData ''.velite'' ?res, OutputAssets ''public'' []]"
  proof -
    let ?cfg = "config_hook None"
    let ?e = "resolve_entries env0 ?cfg None world0"
    have "fst (aggregate_entries ?cfg (projr (fst ?e)) (snd ?e)) = Inr ?res
        \<and> (case fst ?e of Inl err \<Rightarrow> False | Inr es \<Rightarrow> True)"
      by code_simp
    then obtain entries s1 s2 where e: "?e = (Inr entries, s1)"
      and a: "aggregate_entries ?cfg entries s1 = (Inr ?res, s2)"
      by (cases ?e; cases "fst ?e"; cases "aggregate_entries ?cfg (projr (fst ?e)) (snd ?e)") auto
    have p: "prepare ?cfg = Some (\<lambda>res. Inr None)"
      by (simp add: config_hook_def)
    have w: "trace world0 = []" "assets world0 = []"
      by (simp_all add: world0_def)
    from prepare_hook_decides_output [OF e a p refl] show ?thesis
      by (simp add: w config_hook_def config_of_def env0_def)
  qed
  from 1 2 show ?thesis by simp
qed

section \<open>Determinism of a full pass\<close>

lemma run_all_fst_indep:
  assumes "\<And>x s s'. fst (f x s) = fst (f x s')"
  shows "fst (run_all f xs s) = fst (run_all f xs s')"
proof (induction xs arbitrary: s s')
  case Nil
  show ?case by simp
next
  case (Cons x xs)
  show ?case
    using assms [of x s s'] Cons.IH [of "snd (f x s)" "snd (f x s')"]
    by (simp add: split_beta)
qed

lemma map_throw_fst_indep:
  assumes "\<And>x s s'. fst (f x s) = fst (f x s')"
  shows "fst (map_throw f xs s) = fst (map_throw f xs s')"
proof (induction xs arbitrary: s s')
  case Nil
  show ?case by simp
next
  case (Cons x xs)
  show ?case
    using assms [of x s s'] Cons.IH [of "snd (f x s)" "snd (f x s')"]
    by (cases "f x s"; cases "f x s'"; cases "fst (f x s)")
       (auto simp: split_beta split: sum.splits)
qed

lemma run_all_fst_map:
  assumes "\<And>x s. fst (f x s) = g x"
  shows "fst (run_all f xs s) = map g xs"
  by (induction xs arbitrary: s) (simp_all add: split_beta assms)

lemma load_full_fst:
  "fst (load E cfg p sch None s) =
     (case read_records E (normalize E p) of
        Inl e \<Rightarrow> Inl e
      | Inr recs \<Rightarrow> Inr (file_of sch (normalize E p) recs))"
  by (simp add: load_miss load_fresh_throws load_fresh_returns split: sum.splits)

lemma resolve_collection_full_fst:
  "fst (resolve_collection E cfg None nc s) = fst (resolve_collection E cfg None nc s')"
proof -
  have "fst (run_all (\<lambda>p. load E cfg p sch None) ps a)
      = map (\<lambda>p. case read_records E (normalize E p) of
                     Inl e \<Rightarrow> Inl e
                   | Inr recs \<Rightarrow> Inr (file_of sch (normalize E p) recs)) ps" for sch ps a
    by (rule run_all_fst_map) (rule load_full_fst)
  then show ?thesis
    by (auto simp: resolve_collection_def skip_collection_def Let_def split_beta split: sum.splits)
qed

lemma resolve_entries_full_fst:
  "fst (resolve_entries E cfg None s) = fst (resolve_entries E cfg None s')"
proof -
  let ?m = "Log (''resolving collections from '' @ [CHR 0x27] @ root cfg @ [CHR 0x27])"
  have "fst (run_all (resolve_collection E cfg None) (collections cfg) (emit ?m s))
      = fst (run_all (resolve_collection E cfg None) (collections cfg) (emit ?m s'))"
    by (rule run_all_fst_indep) (rule resolve_collection_full_fst)
  then show ?thesis
    by (simp add: resolve_entries_def split_beta)
qed

lemma collect_fst: "fst (collect cfg nf s) = fst (collect cfg nf s')"
  by (simp add: collect_def Let_def split: option.splits)

lemma aggregate_entries_fst:
  "fst (aggregate_entries cfg entries s) = fst (aggregate_entries cfg entries s')"
proof -
  have "fst (map_throw (collect cfg) entries a) = fst (map_throw (collect cfg) entries b)" for a b
    by (rule map_throw_fst_indep) (rule collect_fst)
  from this [of s s'] this [of "emit (issues_warning entries) s" "emit (issues_warning entries) s'"]
  show ?thesis
    by (simp add: aggregate_entries_def Let_def)
qed

lemma run_complete_fst:
  "fst (run_complete cfg res s) = (case complete cfg of None \<Rightarrow> None | Some hook \<Rightarrow> hook res)"
  by (simp add: run_complete_def split: option.splits)

lemma emit_output_fst_eq:
  "fst (emit_output E cfg res s) =
     (case prepare_verdict cfg res of
        Inl e \<Rightarrow> Inl e
      | Inr shouldOutput \<Rightarrow>
          (case (if shouldOutput then outputData E (output_data cfg) res else None) of
             Some e \<Rightarrow> Inl e
           | None \<Rightarrow>
               (case outputAssets E (output_assets cfg) (assets s) of
                  Some e \<Rightarrow> Inl e
                | None \<Rightarrow>
                    (case (case complete cfg of None \<Rightarrow> None | Some hook \<Rightarrow> hook res) of
                       Some e \<Rightarrow> Inl e
                     | None \<Rightarrow> Inr res))))"
proof -
  obtain v s1 where p: "run_prepare cfg res s = (v, s1)"
    by (cases "run_prepare cfg res s")
  from run_prepare_frame [where cfg = cfg and res = res and s = s] p
  have v: "v = prepare_verdict cfg res" and q: "quiet s s1" by simp_all
  from q have a: "assets s1 = assets s"
    by (simp add: quiet_def)
  show ?thesis
    unfolding v [symmetric]
    by (cases v) (simp_all add: emit_output_def p a split_beta run_complete_fst split: option.splits)
qed

lemma emit_output_fst:
  assumes "assets s = assets s'"
  shows "fst (emit_output E cfg res s) = fst (emit_output E cfg res s')"
  unfolding emit_output_fst_eq assms ..

lemma resolve_frame:
  "assets (snd (resolve E cfg ch s)) = assets s"
  "watcher (snd (resolve E cfg ch s)) = watcher s"
proof -
  obtain r s1 where e: "resolve_entries E cfg ch s = (r, s1)"
    by (cases "resolve_entries E cfg ch s")
  have q1: "quiet s s1"
    using resolve_entries_quiet [of s E cfg ch] e by simp
  have q2: "quiet s1 (snd (aggregate_entries cfg entries s1))" for entries
    by (rule aggregate_entries_frame)
  have "assets (snd (resolve E cfg ch s)) = assets s \<and> watcher (snd (resolve E cfg ch s)) = watcher s"
  proof (cases r)
    case (Inl err)
    with e q1 show ?thesis by (simp add: resolve_def quiet_def)
  next
    case (Inr entries)
    show ?thesis
      using e Inr q1 q2 [of entries]
      by (cases "aggregate_entries cfg entries s1"; cases "fst (aggregate_entries cfg entries s1)")
         (auto simp: resolve_def quiet_def emit_output_frame)
  qed
  then show "assets (snd (resolve E cfg ch s)) = assets s"
    and "watcher (snd (resolve E cfg ch s)) = watcher s"
    by simp_all
qed

lemma resolve_full_fst:
  assumes "assets s = assets s'"
  shows "fst (resolve E cfg None s) = fst (resolve E cfg None s')"
proof -
  obtain r s1 where e: "resolve_entries E cfg None s = (r, s1)"
    by (cases "resolve_entries E cfg None s")
  obtain r' s1' where e': "resolve_entries E cfg None s' = (r', s1')"
    by (cases "resolve_entries E cfg None s'")
  have r: "r' = r"
    using resolve_entries_full_fst [of E cfg s s'] e e' by simp
  have a1: "assets s1 = assets s1'"
    using resolve_entries_quiet [of s E cfg None] resolve_entries_quiet [of s' E cfg None]
      e e' assms by (simp add: quiet_def)
  show ?thesis
  proof (cases r)
    case (Inl err)
    with e e' r show ?thesis by (simp add: resolve_def)
  next
    case (Inr entries)
    obtain a s2 where g: "aggregate_entries cfg entries s1 = (a, s2)"
      by (cases "aggregate_entries cfg entries s1")
    obtain a' s2' where g': "aggregate_entries cfg entries s1' = (a', s2')"
      by (cases "aggregate_entries cfg entries s1'")
    have a: "a' = a"
      using aggregate_entries_fst [of cfg entries s1 s1'] g g' by simp
    have a2: "assets s2 = assets s2'"
      using aggregate_entries_frame(2) [where cfg = cfg and entries = entries and s = s1]
        aggregate_entries_frame(2) [where cfg = cfg and entries = entries and s = s1'] g g' a1
      by (simp add: quiet_def)
    show ?thesis
    proof (cases a)
      case (Inl err)
      with e e' r Inr g g' a show ?thesis by (simp add: resolve_def)
    next
      case res: (Inr res)
      with e e' r Inr g g' a emit_output_fst [OF a2, of E cfg res] show ?thesis
        by (simp add: resolve_def)
    qed
  qed
qed

text \<open>
  C6. For fixed collaborators (an unchanged content tree), a pass without a changed-path hint
  takes nothing from the caches: run again in the world the first pass left behind, it
  returns the same outcome, the same aggregate with the same records in the same order (or
  the same error). More generally the outcome of such a pass is the same in any two worlds
  that agree on the assets, whatever their caches hold.
\<close>

theorem resolve_twice_same_aggregate:
  "fst (resolve E cfg None (snd (resolve E cfg None s))) = fst (resolve E cfg None s)
   \<and> (assets s' = assets s \<longrightarrow> fst (resolve E cfg None s') = fst (resolve E cfg None s))"
  using resolve_full_fst [of "snd (resolve E cfg None s)" s E cfg] resolve_full_fst [of s' s E cfg]
  by (simp add: resolve_frame)


theorem resolve_twice_same_aggregate_witness:
  "fst (resolve env0 (config_of [posts, about] False) None
          (snd (resolve env0 (config_of [posts, about] False) None world0)))
     = fst (resolve env0 (config_of [posts, about] False) None world0)
   \<and> fst (resolve env0 (config_of [posts, about] False) None world2)
     = fst (resolve env0 (config_of [posts, about] False) None world0)"
  using resolve_twice_same_aggregate [of env0 "config_of [posts, about] False" world0 world2]
  by (simp add: world2_def world1_def)

section \<open>Properties of the Rebuild Coordinator\<close>

lemma on_all_rebuild:
  assumes "event \<noteq> EvAddDir" and "event \<noteq> EvUnlinkDir"
    and "join E (root cfg) f0 \<notin> set (configImports cfg)"
  shows "on_all E cfg event (Some f0) s =
    (case rebuild_pass E cfg (join E (root cfg) f0) s of
       (Inl err, s2) \<Rightarrow> (RebuildFailed err, emit (WarnErr err) s2)
     | (Inr res, s2) \<Rightarrow> (Rebuilt, emit (Info ''rebuild finished'') s2))"
  using assms by (simp add: on_all_def Let_def rebuild_pass_def invalidated_def)

lemma on_all_restart:
  assumes "event \<noteq> EvAddDir" and "event \<noteq> EvUnlinkDir"
    and "join E (root cfg) f0 \<in> set (configImports cfg)"
  shows "on_all E cfg event (Some f0) s =
    (case build E (restart_options cfg) (watcher_closed s) of
       (Inl e, s2) \<Rightarrow> (RestartFailed e, s2)
     | (Inr res, s2) \<Rightarrow> (Restarted, s2))"
  using assms by (simp add: on_all_def Let_def emit_def restart_options_def watcher_closed_def)

lemma rebuild_pass_watcher:
  "watcher (snd (rebuild_pass E cfg filename s)) = Some (invalidated filename cfg)"
  by (simp add: rebuild_pass_def resolve_frame)

text \<open>
  C8, as the code has it. The handler of a change event for a file that is not a config
  import never lets a failure of the rebuild pass escape: its outcome is \<open>Rebuilt\<close> or
  \<open>RebuildFailed\<close>, and the watcher stays active with the config of the handler. When the
  pass throws \<open>err\<close>, the thrown error is caught, the last thing the handler does is log it
  as a warning, and the watch loop goes on: the next event is handled by the same watcher,
  in the world the failed pass left behind. (For a config import the handler returns the
  restarted build without awaiting it; what that build throws is outside this statement.)
\<close>

theorem rebuild_failure_is_caught:
  assumes "event \<noteq> EvAddDir" and "event \<noteq> EvUnlinkDir"
    and "join E (root cfg) f0 \<notin> set (configImports cfg)"
  shows "(fst (on_all E cfg event (Some f0) s) = Rebuilt
            \<or> (\<exists>err. fst (on_all E cfg event (Some f0) s) = RebuildFailed err))
    \<and> watcher (snd (on_all E cfg event (Some f0) s))
        = Some (invalidated (join E (root cfg) f0) cfg)
    \<and> (\<forall>err. fst (rebuild_pass E cfg (join E (root cfg) f0) s) = Inl err \<longrightarrow>
          on_all E cfg event (Some f0) s
            = (RebuildFailed err,
               emit (WarnErr err) (snd (rebuild_pass E cfg (join E (root cfg) f0) s)))
          \<and> (watcher s = Some cfg \<longrightarrow>
               watch_loop E ((event, Some f0) # ev2 # evs) s
                 = (case on_all E (invalidated (join E (root cfg) f0) cfg) (fst ev2) (snd ev2)
                           (emit (WarnErr err) (snd (rebuild_pass E cfg (join E (root cfg) f0) s))) of
                      (out2, s2) \<Rightarrow>
                        (case watch_loop E evs s2 of
                           (outs, s3) \<Rightarrow> (RebuildFailed err # out2 # outs, s3)))))"
proof -
  let ?p = "rebuild_pass E cfg (join E (root cfg) f0) s"
  note o = on_all_rebuild [OF assms, of s]
  note w = rebuild_pass_watcher [of E cfg "join E (root cfg) f0" s]
  have 1: "fst (on_all E cfg event (Some f0) s) = Rebuilt
            \<or> (\<exists>err. fst (on_all E cfg event (Some f0) s) = RebuildFailed err)"
    unfolding o by (cases ?p; cases "fst ?p") auto
  have 2: "watcher (snd (on_all E cfg event (Some f0) s))
      = Some (invalidated (join E (root cfg) f0) cfg)"
    unfolding o using w by (cases ?p; cases "fst ?p") auto
  have 3: "on_all E cfg event (Some f0) s = (RebuildFailed err, emit (WarnErr err) (snd ?p))"
    if "fst ?p = Inl err" for err
    unfolding o using that by (cases ?p) auto
  have 4: "watch_loop E ((event, Some f0) # ev2 # evs) s
                 = (case on_all E (invalidated (join E (root cfg) f0) cfg) (fst ev2) (snd ev2)
                           (emit (WarnErr err) (snd ?p)) of
                      (out2, s2) \<Rightarrow>
                        (case watch_loop E evs s2 of
                           (outs, s3) \<Rightarrow> (RebuildFailed err # out2 # outs, s3)))"
    if "fst ?p = Inl err" "watcher s = Some cfg" for err
    using that(2) w by (simp add: 3 [OF that(1)] split_beta)
  from 1 2 3 4 show ?thesis by blast
qed

theorem rebuild_failure_is_caught_witness:
  "on_all env0 (config_of [site] False) EvChange (Some ''site.json'') world_site
     = (RebuildFailed (Error (''no data resolved for '' @ [CHR 0x27] @ ''site'' @ [CHR 0x27])),
        emit (WarnErr (Error (''no data resolved for '' @ [CHR 0x27] @ ''site'' @ [CHR 0x27])))
          (snd (rebuild_pass env0 (config_of [site] False) ''/c/site.json'' world_site)))
   \<and> fst (watch_loop env0 [(EvChange, Some ''site.json''), (EvUnlink, Some ''site.json'')] world_site)
     = [RebuildFailed (Error (''no data resolved for '' @ [CHR 0x27] @ ''site'' @ [CHR 0x27])),
        RebuildFailed (Error (''no data resolved for '' @ [CHR 0x27] @ ''site'' @ [CHR 0x27]))]"
proof -
  let ?cfg = "config_of [site] False"
  let ?err = "Error (''no data resolved for '' @ [CHR 0x27] @ ''site'' @ [CHR 0x27])"
  have j: "join env0 (root ?cfg) ''site.json'' = ''/c/site.json''"
    by (simp add: env0_def config_of_def)
  have n: "join env0 (root ?cfg) ''site.json'' \<notin> set (configImports ?cfg)"
    by (simp add: env0_def config_of_def)
  have f: "fst (rebuild_pass env0 ?cfg ''/c/site.json'' world_site) = Inl ?err"
    by code_simp
  have w: "watcher world_site = Some ?cfg"
    by (simp add: world_site_def)
  note T = rebuild_failure_is_caught [of EvChange env0 ?cfg "''site.json''" world_site
      "(EvUnlink, Some ''site.json'')" "[]", unfolded j, OF _ _ n [unfolded j]]
  from T f w have 1: "on_all env0 ?cfg EvChange (Some ''site.json'') world_site
     = (RebuildFailed ?err,
        emit (WarnErr ?err) (snd (rebuild_pass env0 ?cfg ''/c/site.json'' world_site)))"
    and 2: "watch_loop env0 [(EvChange, Some ''site.json''), (EvUnlink, Some ''site.json'')] world_site
       = (case on_all env0 (invalidated ''/c/site.json'' ?cfg) EvUnlink (Some ''site.json'')
                 (emit (WarnErr ?err) (snd (rebuild_pass env0 ?cfg ''/c/site.json'' world_site))) of
            (out2, s2) \<Rightarrow>
              (case watch_loop env0 [] s2 of
                 (outs, s3) \<Rightarrow> (RebuildFailed ?err # out2 # outs, s3)))"
    by auto
  have 3: "fst (case on_all env0 (invalidated ''/c/site.json'' ?cfg) EvUnlink (Some ''site.json'')
                 (emit (WarnErr ?err) (snd (rebuild_pass env0 ?cfg ''/c/site.json'' world_site))) of
            (out2, s2) \<Rightarrow>
              (case watch_loop env0 [] s2 of
                 (outs, s3) \<Rightarrow> (RebuildFailed ?err # out2 # outs, s3)))
      = [RebuildFailed ?err, RebuildFailed ?err]"
    by code_simp
  have 4: "fst (watch_loop env0 [(EvChange, Some ''site.json''), (EvUnlink, Some ''site.json'')]
      world_site) = [RebuildFailed ?err, RebuildFailed ?err]"
    unfolding 2 by (rule 3)
  from 1 4 show ?thesis by (rule conjI)
qed

text \<open>
  A change event for the config file, where the restarted build resolves to a \<open>single\<close>
  collection whose only file fails validation: the pass of the restarted build throws, the
  error is not caught by the handler and not logged as a warning, the watcher stays closed,
  and the next event is not handled.
\<close>

theorem restart_failure_counterexample:
  "fst (on_all env_site (config_of [posts, about] False) EvChange (Some ''velite.config.js'')
          world_watch)
     = RestartFailed (Error (''no data resolved for '' @ [CHR 0x27] @ ''site'' @ [CHR 0x27]))
   \<and> WarnErr (Error (''no data resolved for '' @ [CHR 0x27] @ ''site'' @ [CHR 0x27]))
       \<notin> set (trace (snd (on_all env_site (config_of [posts, about] False) EvChange
                               (Some ''velite.config.js'') world_watch)))
   \<and> (case watcher (snd (on_all env_site (config_of [posts, about] False) EvChange
                            (Some ''velite.config.js'') world_watch)) of
         None \<Rightarrow> True | Some c \<Rightarrow> False)
   \<and> fst (watch_loop env_site
            [(EvChange, Some ''velite.config.js''), (EvChange, Some ''posts.json'')] world_watch)
     = [RestartFailed (Error (''no data resolved for '' @ [CHR 0x27] @ ''site'' @ [CHR 0x27]))]"
  by code_simp

lemma build_fst:
  "fst (build E opts s) =
     (case resolveConfig E (opt_config opts) (opt_clean opts) (opt_strict opts) of
        Inl e \<Rightarrow> Inl e
      | Inr cfg' \<Rightarrow>
          (case outputEntry E (output_data cfg') (configPath cfg') (map fst (collections cfg')) of
             Some e \<Rightarrow> Inl e
           | None \<Rightarrow> fst (resolve E cfg' None s)))"
proof (cases "resolveConfig E (opt_config opts) (opt_clean opts) (opt_strict opts)")
  case (Inl e)
  then show ?thesis by (simp add: build_def)
next
  case (Inr cfg')
  show ?thesis
  proof (cases "outputEntry E (output_data cfg') (configPath cfg') (map fst (collections cfg'))")
    case (Some e)
    with Inr show ?thesis by (simp add: build_def Let_def)
  next
    case None
    define s0 where "s0 = (case opt_logLevel opts of None \<Rightarrow> s | Some l \<Rightarrow> emit (SetLogLevel l) s)"
    define s1 where "s1 = (if output_clean cfg'
                     then emit (Log (''cleaned assets output dir '' @ [CHR 0x27]
                                     @ output_assets cfg' @ [CHR 0x27]))
                            (emit (Rm (output_assets cfg'))
                               (emit (Log (''cleaned data output dir '' @ [CHR 0x27]
                                           @ output_data cfg' @ [CHR 0x27]))
                                  (emit (Rm (output_data cfg')) s0)))
                     else s0)"
    define s2 where "s2 = emit (Log ''initialized'')
        (emit (OutputEntry (output_data cfg') (configPath cfg') (map fst (collections cfg')))
           (emit (Mkdir (output_assets cfg')) (emit (Mkdir (output_data cfg')) s1)))"
    have k: "fst (case x of (Inl e, s3) \<Rightarrow> (Inl e, s3) | (Inr res, s3) \<Rightarrow> (Inr res, g s3)) = fst x"
      for x :: "(js_error + aggregate) \<times> world" and g
      by (cases x; cases "fst x") auto
    have "build E opts s =
        (case resolve E cfg' None s2 of
           (Inl e, s3) \<Rightarrow> (Inl e, s3)
         | (Inr res, s3) \<Rightarrow>
             (Inr res,
              (\<lambda>s3. if opt_watch opts = Some True
                    then watch E cfg' (emit (Info ''build finished'') s3)
                    else emit (Info ''build finished'') s3) s3))"
      unfolding build_def Let_def s0_def s1_def s2_def using Inr None by simp
    then have b: "fst (build E opts s) = fst (resolve E cfg' None s2)"
      by (simp only: k)
    have "assets s2 = assets s"
      by (simp add: s2_def s1_def s0_def split: option.splits)
    from resolve_full_fst [OF this] b Inr None show ?thesis
      by simp
  qed
qed

lemma build_watcher:
  assumes "resolveConfig E (opt_config opts) (opt_clean opts) (opt_strict opts) = Inr cfg'"
    and "fst (build E opts s) = Inr res" and "opt_watch opts = Some True"
  shows "watcher (snd (build E opts s)) = Some cfg'"
  using assms
  by (auto simp: build_def Let_def split_beta watch_def split: option.splits sum.splits)

text \<open>
  C9. The handler of a change event for the config file or one of its imports closes the
  watcher and returns the build restarted with the config path, \<open>clean: false\<close> and
  \<open>watch: true\<close>; no pass scoped to the changed path is run. The removal of the cache
  entries of the changed file comes before the test, but it only touches the config object
  of the closed watcher, which the restart drops: the restarted build begins in the world
  in which nothing but the closing of the watcher has happened. The restart is a full
  reload: its outcome is that of resolving the config anew, writing the entry and running a
  pass without a changed-path hint; it is the same whatever \<open>resolved\<close> and the path cache
  hold; and when it succeeds the new watcher runs on the config resolved anew.
\<close>

theorem config_change_restarts:
  assumes "event \<noteq> EvAddDir" and "event \<noteq> EvUnlinkDir"
    and "join E (root cfg) f0 \<in> set (configImports cfg)"
  shows "on_all E cfg event (Some f0) s =
      (case build E (restart_options cfg) (watcher_closed s) of
         (Inl e, s2) \<Rightarrow> (RestartFailed e, s2)
       | (Inr res, s2) \<Rightarrow> (Restarted, s2))
    \<and> fst (on_all E cfg event (Some f0) s) =
      (case resolveConfig E (Some (configPath cfg)) (Some False) None of
         Inl e \<Rightarrow> RestartFailed e
       | Inr cfg' \<Rightarrow>
           (case outputEntry E (output_data cfg') (configPath cfg') (map fst (collections cfg')) of
              Some e \<Rightarrow> RestartFailed e
            | None \<Rightarrow>
                (case fst (resolve E cfg' None s) of
                   Inl e \<Rightarrow> RestartFailed e
                 | Inr res \<Rightarrow> Restarted)))
    \<and> (\<forall>r l. fst (on_all E cfg event (Some f0) (s\<lparr>resolved := r, loaded := l\<rparr>))
             = fst (on_all E cfg event (Some f0) s))
    \<and> (\<forall>cfg'. resolveConfig E (Some (configPath cfg)) (Some False) None = Inr cfg'
           \<and> fst (on_all E cfg event (Some f0) s) = Restarted
         \<longrightarrow> watcher (snd (on_all E cfg event (Some f0) s)) = Some cfg')"
proof -
  let ?b = "\<lambda>s. build E (restart_options cfg) (watcher_closed s)"
  note o = on_all_restart [OF assms]
  have f: "fst (on_all E cfg event (Some f0) s0)
      = (case fst (?b s0) of Inl e \<Rightarrow> RestartFailed e | Inr res \<Rightarrow> Restarted)" for s0
    unfolding o by (cases "?b s0"; cases "fst (?b s0)") auto
  have a: "fst (resolve E c None (watcher_closed s0)) = fst (resolve E c None s0)" for c s0
    by (rule resolve_full_fst) (simp add: watcher_closed_def)
  have 2: "fst (on_all E cfg event (Some f0) s0) =
      (case resolveConfig E (Some (configPath cfg)) (Some False) None of
         Inl e \<Rightarrow> RestartFailed e
       | Inr cfg' \<Rightarrow>
           (case outputEntry E (output_data cfg') (configPath cfg') (map fst (collections cfg')) of
              Some e \<Rightarrow> RestartFailed e
            | None \<Rightarrow>
                (case fst (resolve E cfg' None s0) of
                   Inl e \<Rightarrow> RestartFailed e
                 | Inr res \<Rightarrow> Restarted)))" for s0
    by (auto simp: f build_fst a restart_options_def split: sum.splits option.splits)
  have r: "fst (resolve E c None (s\<lparr>resolved := r, loaded := l\<rparr>)) = fst (resolve E c None s)"
    for c r l
    by (rule resolve_full_fst) simp
  have 3: "fst (on_all E cfg event (Some f0) (s\<lparr>resolved := r, loaded := l\<rparr>))
             = fst (on_all E cfg event (Some f0) s)" for r l
    unfolding 2 r ..
  have 4: "watcher (snd (on_all E cfg event (Some f0) s)) = Some cfg'"
    if c: "resolveConfig E (Some (configPath cfg)) (Some False) None = Inr cfg'"
      and d: "fst (on_all E cfg event (Some f0) s) = Restarted" for cfg'
  proof -
    from d obtain res where b: "fst (?b s) = Inr res"
      unfolding f by (cases "fst (?b s)") auto
    have "watcher (snd (?b s)) = Some cfg'"
      by (rule build_watcher [OF _ b]) (simp_all add: restart_options_def c)
    with b show ?thesis
      unfolding o by (cases "?b s") auto
  qed
  from o 2 3 4 show ?thesis by blast
qed

theorem config_change_restarts_witness:
  "fst (on_all env0 (config_of [posts, about] False) EvChange (Some ''velite.config.js'') world_watch)
     = Restarted
   \<and> fst (on_all env0 (config_of [posts, about] False) EvChange (Some ''velite.config.js'')
            (world_watch\<lparr>resolved := Map.empty, loaded := Map.empty\<rparr>))
     = Restarted"
proof -
  let ?cfg = "config_of [posts, about] False"
  have m: "join env0 (root ?cfg) ''velite.config.js'' \<in> set (configImports ?cfg)"
    by (simp add: env0_def config_of_def)
  note T = config_change_restarts [of EvChange env0 ?cfg "''velite.config.js''" world_watch, OF _ _ m]
  have c: "resolveConfig env0 (Some (configPath ?cfg)) (Some False) None = Inr ?cfg"
    and e: "outputEntry env0 (output_data ?cfg) (configPath ?cfg) (map fst (collections ?cfg)) = None"
    by (simp_all add: env0_def)
  have r: "fst (resolve env0 ?cfg None world_watch)
      = Inr [(''posts'', VArr [post ''a'', post ''b'']), (''about'', post ''about'')]"
    by code_simp
  from T have T2: "fst (on_all env0 ?cfg EvChange (Some ''velite.config.js'') world_watch) =
      (case resolveConfig env0 (Some (configPath ?cfg)) (Some False) None of
         Inl e \<Rightarrow> RestartFailed e
       | Inr cfg' \<Rightarrow>
           (case outputEntry env0 (output_data cfg') (configPath cfg') (map fst (collections cfg')) of
              Some e \<Rightarrow> RestartFailed e
            | None \<Rightarrow>
                (case fst (resolve env0 cfg' None world_watch) of
                   Inl e \<Rightarrow> RestartFailed e
                 | Inr res \<Rightarrow> Restarted)))"
    by blast
  have 1: "fst (on_all env0 ?cfg EvChange (Some ''velite.config.js'') world_watch) = Restarted"
    by (simp only: T2 c e r sum.case option.case)
  from T have "fst (on_all env0 ?cfg EvChange (Some ''velite.config.js'')
            (world_watch\<lparr>resolved := Map.empty, loaded := Map.empty\<rparr>))
      = fst (on_all env0 ?cfg EvChange (Some ''velite.config.js'') world_watch)"
    by blast
  with 1 show ?thesis by simp
qed


section \<open>Properties of the markdown transform\<close>

text \<open>
  C10. When the pipeline throws on the value it is given, the transform does not throw: it
  adds one issue with the code \<open>custom\<close> and the message of the thrown error, and returns the
  value it gave to the pipeline, unrendered. That value is the raw input of the field
  whenever the field has one (for an absent field it is the content of the file, which
  stands in for it).
\<close>

theorem markdown_pipeline_throws:
  assumes "process (remark_of opts ctx) (rehype_of opts ctx) (input_of value0 ctx) (file_path ctx)
             = Inl err"
  shows "fst (markdown opts process value0 ctx) = input_of value0 ctx
    \<and> (\<forall>raw. value0 = Some raw \<longrightarrow> fst (markdown opts process value0 ctx) = Some raw)
    \<and> issues (snd (markdown opts process value0 ctx))
        = issues ctx @ [\<lparr>code = ''custom'', message = err_message err\<rparr>]"
proof -
  have m: "markdown opts process value0 ctx
      = (input_of value0 ctx, addIssue (err_message err) (pushed opts ctx))"
    using assms by (simp add: markdown_def Let_def)
  have i: "input_of value0 ctx = Some raw" if "value0 = Some raw" for raw
    using that by (simp add: input_of_def)
  show ?thesis
    using m i by (auto simp: addIssue_def pushed_def)
qed

theorem markdown_pipeline_throws_witness:
  "fst (markdown empty_options pipeline0 (Some ''boom'') ctx0) = Some ''boom''
   \<and> issues (snd (markdown empty_options pipeline0 (Some ''boom'') ctx0))
       = [\<lparr>code = ''custom'', message = ''cannot process''\<rparr>]"
  using markdown_pipeline_throws [of pipeline0 empty_options ctx0 "Some ''boom''" "Error ''cannot process''"]
  by (simp add: pipeline0_def ctx0_def input_of_def)

end
